theory Spec2Isabelle
  imports Main "HOL-Library.Char_ord"
begin

section \<open>Text and character classes\<close>

text \<open>
  A Python \<^verbatim>\<open>str\<close> is a sequence of code points. The model reads a \<^typ>\<open>string\<close> as a
  sequence of code points below 256, one code point per \<^typ>\<open>char\<close>, so \<^const>\<open>length\<close>
  is Python's \<^verbatim>\<open>len\<close> and \<^const>\<open>take\<close> is a slice \<^verbatim>\<open>text[:n]\<close>. The character classes
  below are Python's classes restricted to that range.
\<close>

definition isspace :: "char \<Rightarrow> bool" where
  \<comment> \<open>\<^verbatim>\<open>str.isspace\<close>, also the class \<^verbatim>\<open>\s\<close> of a \<^verbatim>\<open>str\<close> pattern: TAB..CR, FS..US, space, NEL, NBSP.\<close>
  "isspace c =
     ((CHR 0x09 \<le> c \<and> c \<le> CHR 0x0D) \<or> (CHR 0x1C \<le> c \<and> c \<le> CHR 0x1F)
      \<or> c = CHR 0x20 \<or> c = CHR 0x85 \<or> c = CHR 0xA0)"

definition isdecimal :: "char \<Rightarrow> bool" where
  \<comment> \<open>the class \<^verbatim>\<open>\d\<close> of a \<^verbatim>\<open>str\<close> pattern (category Nd).\<close>
  "isdecimal c = (CHR ''0'' \<le> c \<and> c \<le> CHR ''9'')"

definition isword :: "char \<Rightarrow> bool" where
  \<comment> \<open>the class \<^verbatim>\<open>\w\<close> of a \<^verbatim>\<open>str\<close> pattern: \<^verbatim>\<open>str.isalnum\<close> or an underscore.\<close>
  "isword c =
     ((CHR ''0'' \<le> c \<and> c \<le> CHR ''9'') \<or> (CHR ''A'' \<le> c \<and> c \<le> CHR ''Z'')
      \<or> c = CHR ''_'' \<or> (CHR ''a'' \<le> c \<and> c \<le> CHR ''z'')
      \<or> c = CHR 0xAA \<or> c = CHR 0xB2 \<or> c = CHR 0xB3 \<or> c = CHR 0xB5
      \<or> c = CHR 0xB9 \<or> c = CHR 0xBA \<or> (CHR 0xBC \<le> c \<and> c \<le> CHR 0xBE)
      \<or> (CHR 0xC0 \<le> c \<and> c \<le> CHR 0xD6) \<or> (CHR 0xD8 \<le> c \<and> c \<le> CHR 0xF6)
      \<or> CHR 0xF8 \<le> c)"

definition lower_char :: "char \<Rightarrow> char" where
  \<comment> \<open>\<^verbatim>\<open>str.lower\<close> on one code point: A..Z and the capital letters U+00C0..U+00DE
      (U+00D7, the multiplication sign, apart) move up by 32.\<close>
  "lower_char c =
     (if (CHR ''A'' \<le> c \<and> c \<le> CHR ''Z'') \<or> (CHR 0xC0 \<le> c \<and> c \<le> CHR 0xD6)
         \<or> (CHR 0xD8 \<le> c \<and> c \<le> CHR 0xDE)
      then char_of (of_char c + (32::nat)) else c)"

definition lower :: "string \<Rightarrow> string" where
  "lower s = map lower_char s"

definition strip :: "string \<Rightarrow> string" where
  \<comment> \<open>\<^verbatim>\<open>str.strip()\<close>: leading and trailing whitespace removed.\<close>
  "strip s = dropWhile isspace (rev (dropWhile isspace (rev s)))"

fun split_acc :: "string \<Rightarrow> string \<Rightarrow> string list" where
  "split_acc cur [] = (if cur = [] then [] else [cur])"
| "split_acc cur (c # cs) =
     (if isspace c then (if cur = [] then [] else [cur]) @ split_acc [] cs
      else split_acc (cur @ [c]) cs)"

definition split :: "string \<Rightarrow> string list" where
  \<comment> \<open>\<^verbatim>\<open>str.split()\<close>: the maximal runs of non-whitespace.\<close>
  "split s = split_acc [] s"

fun contains :: "string \<Rightarrow> string \<Rightarrow> bool" where
  \<comment> \<open>\<^verbatim>\<open>part in s\<close> on strings: \<open>part\<close> occurs in \<open>s\<close> as a contiguous substring.\<close>
  "contains part [] = (part = [])"
| "contains part (c # s) = (take (length part) (c # s) = part \<or> contains part s)"

fun join :: "string \<Rightarrow> string list \<Rightarrow> string" where
  "join sep [] = []"
| "join sep [x] = x"
| "join sep (x # y # ys) = x @ sep @ join sep (y # ys)"

section \<open>Regular expressions\<close>

text \<open>
  The patterns of the module are compiled by the \<^verbatim>\<open>re\<close> module, a backtracking matcher:
  a greedy quantifier tries the longest repetition first, an alternative tries its left
  branch first, and the first complete match found wins. \<open>rmatch\<close> lists the ways a
  pattern matches at one position, in the order the matcher tries them, each with the
  position reached and the text captured by the pattern's group, if it took part.
  A position is the character before it (for \<^verbatim>\<open>^\<close> and \<^verbatim>\<open>\b\<close>) and the text from it on.
\<close>

datatype citem = Rng char char | Chr char | Digit | Space

datatype regex =
    Eps
  | Lit string
  | Cls "citem list"
  | Many nat "citem list"
  | Seq regex regex
  | Alt regex regex
  | Opt regex
  | Grp regex
  | Bol
  | WordB

record flags =
  ignorecase :: bool
  multiline :: bool

type_synonym pos = "char option \<times> string"

fun in_item :: "citem \<Rightarrow> char \<Rightarrow> bool" where
  "in_item (Rng a b) c = (a \<le> c \<and> c \<le> b)"
| "in_item (Chr a) c = (c = a)"
| "in_item Digit c = isdecimal c"
| "in_item Space c = isspace c"

definition in_class :: "citem list \<Rightarrow> char \<Rightarrow> bool" where
  \<comment> \<open>A class \<^verbatim>\<open>[...]\<close>. Every class of this module holds both cases of each of its
      letters, so \<^verbatim>\<open>re.IGNORECASE\<close> leaves it as it is.\<close>
  "in_class cs c = list_ex (\<lambda>i. in_item i c) cs"

definition chr_eq :: "flags \<Rightarrow> char \<Rightarrow> char \<Rightarrow> bool" where
  "chr_eq fl p c = (if ignorecase fl then lower_char p = lower_char c else p = c)"

fun lit :: "flags \<Rightarrow> string \<Rightarrow> pos \<Rightarrow> pos option" where
  "lit fl [] ps = Some ps"
| "lit fl (p # pt) (pv, []) = None"
| "lit fl (p # pt) (pv, c # s) = (if chr_eq fl p c then lit fl pt (Some c, s) else None)"

fun many :: "citem list \<Rightarrow> nat \<Rightarrow> pos \<Rightarrow> pos list" where
  \<comment> \<open>\<^verbatim>\<open>[...]{m,}\<close>, greedy: one more character first, stopping here second.\<close>
  "many cs m (pv, []) = (if m = 0 then [(pv, [])] else [])"
| "many cs m (pv, c # s) =
     (if in_class cs c then many cs (m - 1) (Some c, s) else [])
     @ (if m = 0 then [(pv, c # s)] else [])"

definition is_word_opt :: "char option \<Rightarrow> bool" where
  "is_word_opt x = (case x of None \<Rightarrow> False | Some c \<Rightarrow> isword c)"

definition later :: "string option \<Rightarrow> string option \<Rightarrow> string option" where
  \<comment> \<open>the group's text after two parts of a pattern: the second part's if it captured.\<close>
  "later g1 g2 = (case g2 of None \<Rightarrow> g1 | Some x \<Rightarrow> Some x)"

definition consumed :: "pos \<Rightarrow> pos \<Rightarrow> string" where
  "consumed p p' = take (length (snd p) - length (snd p')) (snd p)"

fun rmatch :: "flags \<Rightarrow> regex \<Rightarrow> pos \<Rightarrow> (pos \<times> string option) list" where
  "rmatch fl Eps p = [(p, None)]"
| "rmatch fl (Lit s) p = (case lit fl s p of None \<Rightarrow> [] | Some p' \<Rightarrow> [(p', None)])"
| "rmatch fl (Cls cs) p =
     (case snd p of [] \<Rightarrow> []
      | c # s \<Rightarrow> if in_class cs c then [((Some c, s), None)] else [])"
| "rmatch fl (Many m cs) p = map (\<lambda>p'. (p', None)) (many cs m p)"
| "rmatch fl (Seq a b) p =
     concat (map (\<lambda>(p1, g1). map (\<lambda>(p2, g2). (p2, later g1 g2)) (rmatch fl b p1))
                 (rmatch fl a p))"
| "rmatch fl (Alt a b) p = rmatch fl a p @ rmatch fl b p"
| "rmatch fl (Opt a) p = rmatch fl a p @ [(p, None)]"
| "rmatch fl (Grp a) p = map (\<lambda>(p', g). (p', Some (consumed p p'))) (rmatch fl a p)"
| "rmatch fl Bol p =
     (if fst p = None \<or> (multiline fl \<and> fst p = Some CHR 0x0A) then [(p, None)] else [])"
| "rmatch fl WordB p =
     (if is_word_opt (fst p) \<noteq> is_word_opt (case snd p of [] \<Rightarrow> None | c # s \<Rightarrow> Some c)
      then [(p, None)] else [])"

fun seqs :: "regex list \<Rightarrow> regex" where
  "seqs [] = Eps"
| "seqs [r] = r"
| "seqs (r # rs) = Seq r (seqs rs)"

fun exactly :: "nat \<Rightarrow> regex \<Rightarrow> regex" where
  \<comment> \<open>\<^verbatim>\<open>r{n}\<close>\<close>
  "exactly 0 r = Eps"
| "exactly (Suc n) r = Seq r (exactly n r)"

fun upto :: "nat \<Rightarrow> regex \<Rightarrow> regex" where
  \<comment> \<open>\<^verbatim>\<open>r{0,n}\<close>, greedy: \<^verbatim>\<open>(?:r(?:r ... )?)?\<close>\<close>
  "upto 0 r = Eps"
| "upto (Suc n) r = Opt (Seq r (upto n r))"

fun has_group :: "regex \<Rightarrow> bool" where
  "has_group (Grp a) = True"
| "has_group (Seq a b) = (has_group a \<or> has_group b)"
| "has_group (Alt a b) = (has_group a \<or> has_group b)"
| "has_group (Opt a) = has_group a"
| "has_group r = False"

record pattern =
  pflags :: flags
  rx :: regex

record match =
  group0 :: string
  group1 :: "string option"
  mend :: pos

definition match_at :: "pattern \<Rightarrow> pos \<Rightarrow> match option" where
  \<comment> \<open>the match the matcher finds first when it starts at \<open>p\<close>\<close>
  "match_at pat p =
     (case rmatch (pflags pat) (rx pat) p of [] \<Rightarrow> None
      | (p', g) # _ \<Rightarrow> Some \<lparr>group0 = consumed p p', group1 = g, mend = p'\<rparr>)"

fun search_from :: "pattern \<Rightarrow> char option \<Rightarrow> string \<Rightarrow> match option" where
  "search_from pat pv [] = match_at pat (pv, [])"
| "search_from pat pv (c # s) =
     (case match_at pat (pv, c # s) of Some m \<Rightarrow> Some m
      | None \<Rightarrow> search_from pat (Some c) s)"

definition search :: "pattern \<Rightarrow> string \<Rightarrow> match option" where
  \<comment> \<open>\<^verbatim>\<open>pattern.search(text)\<close>: the first match at the leftmost position that has one.\<close>
  "search pat text = search_from pat None text"

function finditer_from :: "pattern \<Rightarrow> char option \<Rightarrow> string \<Rightarrow> match list" where
  "finditer_from pat pv s =
     (case search_from pat pv s of None \<Rightarrow> []
      | Some m \<Rightarrow>
          m # (if length (snd (mend m)) < length s
               then finditer_from pat (fst (mend m)) (snd (mend m))
               else (case s of [] \<Rightarrow> [] | c # s' \<Rightarrow> finditer_from pat (Some c) s')))"
  by pat_completeness auto
termination
  by (relation "measure (\<lambda>(pat, pv, s). length s)") (auto split: prod.splits)

declare finditer_from.simps [simp del]

definition finditer :: "pattern \<Rightarrow> string \<Rightarrow> match list" where
  \<comment> \<open>the matches from left to right, none overlapping: each search starts where the
      match before it ended. After an empty match the scan moves on by one character; no
      pattern of this module matches the empty string.\<close>
  "finditer pat text = finditer_from pat None text"

definition findall :: "pattern \<Rightarrow> string \<Rightarrow> string list" where
  \<comment> \<open>\<^verbatim>\<open>pattern.findall(text)\<close>: of each match the text of the group when the pattern has
      a group (empty if the group took no part), the whole match otherwise.\<close>
  "findall pat text =
     map (\<lambda>m. if has_group (rx pat) then (case group1 m of None \<Rightarrow> [] | Some g \<Rightarrow> g)
               else group0 m)
         (finditer pat text)"

section \<open>Counting, and integers to and from text\<close>

fun counter_add :: "(string \<times> nat) list \<Rightarrow> string \<Rightarrow> (string \<times> nat) list" where
  \<comment> \<open>\<^verbatim>\<open>counts[w] += 1\<close> on a dict, which keeps its keys in the order they were first stored.\<close>
  "counter_add [] w = [(w, 1)]"
| "counter_add ((k, c) # kvs) w =
     (if k = w then (k, c + 1) # kvs else (k, c) # counter_add kvs w)"

definition Counter :: "string list \<Rightarrow> (string \<times> nat) list" where
  \<comment> \<open>\<^verbatim>\<open>collections.Counter(words)\<close>, as its \<^verbatim>\<open>items()\<close>.\<close>
  "Counter ws = foldl counter_add [] ws"

datatype error = ValueError | TypeError | AttributeError

definition digit_value :: "char \<Rightarrow> int" where
  "digit_value c = int (of_char c) - 48"

definition py_int :: "nat \<Rightarrow> string \<Rightarrow> error + int" where
  \<comment> \<open>\<^verbatim>\<open>int(s)\<close> on the text of a regex group. A text that is not a run of decimal digits
      is a ValueError here (the groups of this module hold digits only). CPython refuses to
      convert a run of more than \<^verbatim>\<open>sys.get_int_max_str_digits()\<close> digits, 4300 unless
      configured otherwise, 0 for no limit; runs of up to 640 digits are never refused.\<close>
  "py_int max_str_digits s =
     (if s = [] \<or> \<not> list_all isdecimal s then Inl ValueError
      else if 640 < length s \<and> 0 < max_str_digits \<and> max_str_digits < length s
        then Inl ValueError
      else Inr (foldl (\<lambda>a c. 10 * a + digit_value c) 0 s))"

function str_nat :: "nat \<Rightarrow> string" where
  "str_nat n =
     (if n < 10 then [''0123456789'' ! n]
      else str_nat (n div 10) @ [''0123456789'' ! (n mod 10)])"
  by pat_completeness auto
termination
  by (relation "measure id") auto

declare str_nat.simps [simp del]

definition str_int :: "int \<Rightarrow> string" where
  \<comment> \<open>\<^verbatim>\<open>str(n)\<close>, as an f-string prints an int. The numbers printed below have no more
      digits than a text \<open>py_int\<close> accepted, or come from the calendar.\<close>
  "str_int i = (if i < 0 then CHR ''-'' # str_nat (nat (- i)) else str_nat (nat i))"

definition str_opt :: "string option \<Rightarrow> string" where
  \<comment> \<open>an f-string field holding a \<^verbatim>\<open>str\<close> or \<^verbatim>\<open>None\<close>\<close>
  "str_opt x = (case x of None \<Rightarrow> ''None'' | Some s \<Rightarrow> s)"

section \<open>The patterns of fraud\_checker.py\<close>

definition handle_chars :: "citem list" where
  \<comment> \<open>\<^verbatim>\<open>[A-Za-z0-9_-]\<close>\<close>
  "handle_chars =
     [Rng CHR ''A'' CHR ''Z'', Rng CHR ''a'' CHR ''z'', Rng CHR ''0'' CHR ''9'',
      Chr CHR ''_'', Chr CHR ''-'']"

definition url_prefix :: "regex list" where
  \<comment> \<open>\<^verbatim>\<open>(?:https?://)?(?:www\.)?\<close>\<close>
  "url_prefix =
     [Opt (seqs [Lit ''http'', Opt (Lit ''s''), Lit ''://'']), Opt (Lit ''www.'')]"

definition GITHUB_PATTERN :: pattern where
  \<comment> \<open>\<^verbatim>\<open>(?:https?://)?(?:www\.)?github\.com/([A-Za-z0-9_-]+)\<close>, IGNORECASE\<close>
  "GITHUB_PATTERN =
     \<lparr>pflags = \<lparr>ignorecase = True, multiline = False\<rparr>,
      rx = seqs (url_prefix @ [Lit ''github.com/'', Grp (Many 1 handle_chars)])\<rparr>"

definition LINKEDIN_PATTERN :: pattern where
  \<comment> \<open>\<^verbatim>\<open>(?:https?://)?(?:www\.)?linkedin\.com/in/([A-Za-z0-9_-]+)\<close>, IGNORECASE\<close>
  "LINKEDIN_PATTERN =
     \<lparr>pflags = \<lparr>ignorecase = True, multiline = False\<rparr>,
      rx = seqs (url_prefix @ [Lit ''linkedin.com/in/'', Grp (Many 1 handle_chars)])\<rparr>"

definition YEAR_PATTERN :: pattern where
  \<comment> \<open>\<^verbatim>\<open>\b(19|20)\d{2}\b\<close>\<close>
  "YEAR_PATTERN =
     \<lparr>pflags = \<lparr>ignorecase = False, multiline = False\<rparr>,
      rx = seqs [WordB, Grp (Alt (Lit ''19'') (Lit ''20'')), exactly 2 (Cls [Digit]), WordB]\<rparr>"

definition EXPERIENCE_PATTERN :: pattern where
  \<comment> \<open>\<^verbatim>\<open>(\d+)\+?\s*(?:years?|yrs?)\s*(?:of\s+)?(?:experience|exp)?\<close>, IGNORECASE\<close>
  "EXPERIENCE_PATTERN =
     \<lparr>pflags = \<lparr>ignorecase = True, multiline = False\<rparr>,
      rx = seqs [Grp (Many 1 [Digit]), Opt (Lit ''+''), Many 0 [Space],
                 Alt (Seq (Lit ''year'') (Opt (Lit ''s''))) (Seq (Lit ''yr'') (Opt (Lit ''s''))),
                 Many 0 [Space], Opt (Seq (Lit ''of'') (Many 1 [Space])),
                 Opt (Alt (Lit ''experience'') (Lit ''exp''))]\<rparr>"

definition NAME_PATTERN :: pattern where
  \<comment> \<open>\<^verbatim>\<open>^([A-Z][a-z]+(?:\s+[A-Z][a-z]+){0,3})\<close>, MULTILINE\<close>
  "NAME_PATTERN =
     \<lparr>pflags = \<lparr>ignorecase = False, multiline = True\<rparr>,
      rx = Seq Bol
             (Grp (seqs [Cls [Rng CHR ''A'' CHR ''Z''], Many 1 [Rng CHR ''a'' CHR ''z''],
                         upto 3 (seqs [Many 1 [Space], Cls [Rng CHR ''A'' CHR ''Z''],
                                       Many 1 [Rng CHR ''a'' CHR ''z'']])]))\<rparr>"

definition WORD_PATTERN :: pattern where
  \<comment> \<open>\<^verbatim>\<open>[a-zA-Z]{3,}\<close>, the pattern of the repeated-word check\<close>
  "WORD_PATTERN =
     \<lparr>pflags = \<lparr>ignorecase = False, multiline = False\<rparr>,
      rx = Many 3 [Rng CHR ''a'' CHR ''z'', Rng CHR ''A'' CHR ''Z'']\<rparr>"

section \<open>The extraction helpers\<close>

definition extract_name :: "string \<Rightarrow> error + string" where
  \<comment> \<open>\<^verbatim>\<open>match.group(1).strip() if match else ""\<close>; \<^verbatim>\<open>None.strip()\<close> is an AttributeError.\<close>
  "extract_name text =
     (case search NAME_PATTERN text of None \<Rightarrow> Inr []
      | Some m \<Rightarrow> (case group1 m of None \<Rightarrow> Inl AttributeError | Some g \<Rightarrow> Inr (strip g)))"

definition normalize :: "string \<Rightarrow> string" where
  \<comment> \<open>\<^verbatim>\<open>re.sub(r"[^a-z]", "", name.lower())\<close>\<close>
  "normalize name = filter (\<lambda>c. CHR ''a'' \<le> c \<and> c \<le> CHR ''z'') (lower name)"

definition name_matches :: "string \<Rightarrow> string option \<Rightarrow> bool" where
  \<comment> \<open>the profile username is \<^verbatim>\<open>match.group(1)\<close>, a \<^verbatim>\<open>str\<close> or \<^verbatim>\<open>None\<close>; both \<^verbatim>\<open>None\<close> and
      the empty string are false to \<^verbatim>\<open>not\<close>.\<close>
  "name_matches candidate_name profile_username =
     (case profile_username of None \<Rightarrow> False
      | Some u \<Rightarrow>
          if candidate_name = [] \<or> u = [] then False
          else let norm_username = normalize u;
                   parts = split (lower candidate_name)
               in list_ex (\<lambda>part. contains part norm_username)
                    (filter (\<lambda>part. 2 < length part) parts))"

fun ints_of :: "nat \<Rightarrow> string list \<Rightarrow> error + int list" where
  \<comment> \<open>\<^verbatim>\<open>[int(y) for y in ys]\<close>\<close>
  "ints_of lim [] = Inr []"
| "ints_of lim (y # ys) =
     (case py_int lim y of Inl e \<Rightarrow> Inl e
      | Inr n \<Rightarrow> (case ints_of lim ys of Inl e \<Rightarrow> Inl e | Inr ns \<Rightarrow> Inr (n # ns)))"

definition extract_graduation_year :: "nat \<Rightarrow> string \<Rightarrow> error + int option" where
  "extract_graduation_year lim text =
     (case ints_of lim (findall YEAR_PATTERN text) of Inl e \<Rightarrow> Inl e
      | Inr years \<Rightarrow>
          let grad_candidates = filter (\<lambda>y. 1970 \<le> y \<and> y \<le> 2099) years
          in Inr (if grad_candidates \<noteq> [] then Some (min_list grad_candidates) else None))"

definition extract_experience_years :: "nat \<Rightarrow> string \<Rightarrow> error + int option" where
  \<comment> \<open>\<^verbatim>\<open>int(match.group(1)) if match else None\<close>; \<^verbatim>\<open>int(None)\<close> is a TypeError.\<close>
  "extract_experience_years lim text =
     (case search EXPERIENCE_PATTERN text of None \<Rightarrow> Inr None
      | Some m \<Rightarrow>
          (case group1 m of None \<Rightarrow> Inl TypeError
           | Some g \<Rightarrow> (case py_int lim g of Inl e \<Rightarrow> Inl e | Inr n \<Rightarrow> Inr (Some n))))"

section \<open>The scoring function\<close>

text \<open>
  \<^verbatim>\<open>check_fraud\<close> keeps a running score and a list of reasons and passes them through
  its sections A to E in turn; each section is a function on that pair here. The calls
  to the logger have no part in the result and are left out.
\<close>

record fraud_report =
  filename :: string
  fraud_score :: int
  fraud_status :: string
  reasons :: "string list"
  extracted_preview :: string

type_synonym acc = "int \<times> string list"

definition flag :: "int \<Rightarrow> string \<Rightarrow> acc \<Rightarrow> acc" where
  \<comment> \<open>\<^verbatim>\<open>fraud_score += n; reasons.append(reason)\<close>\<close>
  "flag n reason a = (fst a + n, snd a @ [reason])"

definition short_reason :: string where
  "short_reason = ''Resume content is empty or too short (< 50 characters)''"

definition presence_rules :: "match option \<Rightarrow> match option \<Rightarrow> acc \<Rightarrow> acc" where
  \<comment> \<open>A) GitHub and LinkedIn presence\<close>
  "presence_rules github_match linkedin_match a =
     (let a = (if github_match = None then flag 25 ''Missing GitHub profile URL'' a else a)
      in if linkedin_match = None then flag 25 ''Missing LinkedIn profile URL'' a else a)"

definition mismatch_rule :: "string \<Rightarrow> match option \<Rightarrow> string \<Rightarrow> acc \<Rightarrow> acc" where
  \<comment> \<open>B) one profile against the candidate name; \<open>site\<close> is the word the reason starts with.\<close>
  "mismatch_rule site profile_match candidate_name a =
     (case profile_match of None \<Rightarrow> a
      | Some m \<Rightarrow>
          if candidate_name \<noteq> [] then
            (let user = group1 m
             in if \<not> name_matches candidate_name user
                then flag 30 (site @ '' username '' @ [CHR 0x27] @ str_opt user @ [CHR 0x27]
                              @ '' does not match candidate name '' @ [CHR 0x27]
                              @ candidate_name @ [CHR 0x27]) a
                else a)
          else a)"

definition timeline_rules :: "int \<Rightarrow> int option \<Rightarrow> int option \<Rightarrow> acc \<Rightarrow> acc" where
  \<comment> \<open>C) education against experience. An \<^verbatim>\<open>int | None\<close> used as a condition is false
      when it is \<^verbatim>\<open>None\<close> or 0.\<close>
  "timeline_rules current_year grad_year exp_years a =
     (let a = (case grad_year of None \<Rightarrow> a
               | Some g \<Rightarrow>
                   if g \<noteq> 0 \<and> g > current_year
                   then flag 20 (''Graduation year ('' @ str_int g @ '') is in the future'') a
                   else a)
      in case grad_year of None \<Rightarrow> a
         | Some g \<Rightarrow>
             (case exp_years of None \<Rightarrow> a
              | Some e \<Rightarrow>
                  if g \<noteq> 0 \<and> e \<noteq> 0 then
                    (let max_possible = current_year - g
                     in if max_possible \<ge> 0 \<and> e > max_possible
                        then flag 30 (''Claimed '' @ str_int e
                                      @ '' years experience but graduated in '' @ str_int g
                                      @ '' (max possible: '' @ str_int max_possible
                                      @ '' years)'') a
                        else a)
                  else a))"

definition repeated_words :: "string \<Rightarrow> string list" where
  \<comment> \<open>\<^verbatim>\<open>[w for w, c in Counter(re.findall(r"[a-zA-Z]{3,}", text.lower())).items() if c > 25]\<close>\<close>
  "repeated_words text =
     (let words = findall WORD_PATTERN (lower text);
          word_counts = Counter words
      in map fst (filter (\<lambda>(w, c). c > 25) word_counts))"

definition repetition_reason :: "string list \<Rightarrow> string" where
  "repetition_reason repeated =
     ''Words repeated excessively (>25 times): '' @ join '', '' (take 5 repeated)"

definition repetition_rule :: "string \<Rightarrow> acc \<Rightarrow> acc" where
  \<comment> \<open>D) repeated-word detection\<close>
  "repetition_rule text a =
     (let repeated = repeated_words text
      in if repeated \<noteq> [] then flag 15 (repetition_reason repeated) a else a)"

definition unrealistic_rule :: "int option \<Rightarrow> acc \<Rightarrow> acc" where
  \<comment> \<open>E) unrealistic experience\<close>
  "unrealistic_rule exp_years a =
     (case exp_years of None \<Rightarrow> a
      | Some e \<Rightarrow>
          if e \<noteq> 0 \<and> e > 40
          then (max (fst a) 50,
                snd a @ [''Unrealistic experience claimed: '' @ str_int e @ '' years (>40)''])
          else a)"

definition profile_timeline_rules ::
  "int \<Rightarrow> string \<Rightarrow> string \<Rightarrow> int option \<Rightarrow> int option \<Rightarrow> acc" where
  \<comment> \<open>the score and the reasons after the sections A to C, from score 0 and no reasons\<close>
  "profile_timeline_rules current_year text candidate_name grad_year exp_years =
     (let github_match = search GITHUB_PATTERN text;
          linkedin_match = search LINKEDIN_PATTERN text;
          a = presence_rules github_match linkedin_match (0, []);
          a = mismatch_rule ''GitHub'' github_match candidate_name a;
          a = mismatch_rule ''LinkedIn'' linkedin_match candidate_name a
      in timeline_rules current_year grad_year exp_years a)"

definition additive_rules ::
  "int \<Rightarrow> string \<Rightarrow> string \<Rightarrow> int option \<Rightarrow> int option \<Rightarrow> acc" where
  \<comment> \<open>the score and the reasons after the sections A to D, which only ever add\<close>
  "additive_rules current_year text candidate_name grad_year exp_years =
     repetition_rule text
       (profile_timeline_rules current_year text candidate_name grad_year exp_years)"

definition final_report :: "string \<Rightarrow> string \<Rightarrow> acc \<Rightarrow> fraud_report" where
  \<comment> \<open>cap and determine status\<close>
  "final_report fname text a =
     (let score = min (fst a) 100;
          status = (if score \<ge> 50 then ''Suspicious'' else ''Genuine'')
      in \<lparr>filename = fname, fraud_score = score, fraud_status = status,
          reasons = snd a, extracted_preview = take 300 text\<rparr>)"

definition check_fraud :: "nat \<Rightarrow> int \<Rightarrow> string \<Rightarrow> string \<Rightarrow> error + fraud_report" where
  \<comment> \<open>\<open>lim\<close> is the interpreter's \<^verbatim>\<open>sys.get_int_max_str_digits()\<close> and \<open>current_year\<close> is
      \<^verbatim>\<open>datetime.now().year\<close>; a statement that raises ends the call with its error.\<close>
  "check_fraud lim current_year text fname =
     (if length (strip text) < 50 then
        Inr \<lparr>filename = fname, fraud_score = 100, fraud_status = ''Suspicious'',
             reasons = [short_reason], extracted_preview = take 300 text\<rparr>
      else
        (case extract_name text of Inl e \<Rightarrow> Inl e
         | Inr candidate_name \<Rightarrow>
        (case extract_graduation_year lim text of Inl e \<Rightarrow> Inl e
         | Inr grad_year \<Rightarrow>
        (case extract_experience_years lim text of Inl e \<Rightarrow> Inl e
         | Inr exp_years \<Rightarrow>
            Inr (final_report fname text
                   (unrealistic_rule exp_years
                      (additive_rules current_year text candidate_name grad_year
                         exp_years)))))))"

section \<open>Notions of the specification, and sample resumes\<close>

fun captures :: "regex \<Rightarrow> bool" where
  \<comment> \<open>a pattern whose group takes part in every match: the group lies on every path\<close>
  "captures (Grp a) = True"
| "captures (Seq a b) = (captures a \<or> captures b)"
| "captures (Alt a b) = (captures a \<and> captures b)"
| "captures r = False"

definition year_tokens :: "string \<Rightarrow> string list" where
  \<comment> \<open>every 4-digit token of the text beginning with 19 or 20: the whole matches of
      \<open>YEAR_PATTERN\<close>\<close>
  "year_tokens text = map group0 (finditer YEAR_PATTERN text)"

definition spec_graduation_year :: "string \<Rightarrow> int option" where
  \<comment> \<open>the graduation year in the specification's words: the minimum of the year tokens
      that lie in the range 1970 to 2099, absent when there is none\<close>
  "spec_graduation_year text =
     (let years = map (foldl (\<lambda>a c. 10 * a + digit_value c) 0) (year_tokens text);
          grad_candidates = filter (\<lambda>y. 1970 \<le> y \<and> y \<le> 2099) years
      in if grad_candidates \<noteq> [] then Some (min_list grad_candidates) else None)"

definition isletter :: "char \<Rightarrow> bool" where
  \<comment> \<open>a letter of the class \<^verbatim>\<open>[a-zA-Z]\<close>: a to z or A to Z, no other alphabetic character\<close>
  "isletter c = ((CHR ''a'' \<le> c \<and> c \<le> CHR ''z'') \<or> (CHR ''A'' \<le> c \<and> c \<le> CHR ''Z''))"

definition isalpha :: "char \<Rightarrow> bool" where
  \<comment> \<open>an alphabetic character, \<^verbatim>\<open>str.isalpha\<close>: the letters a to z and A to Z, and the
      letters of U+00AA to U+00FF\<close>
  "isalpha c =
     ((CHR ''A'' \<le> c \<and> c \<le> CHR ''Z'') \<or> (CHR ''a'' \<le> c \<and> c \<le> CHR ''z'')
      \<or> c = CHR 0xAA \<or> c = CHR 0xB5 \<or> c = CHR 0xBA
      \<or> (CHR 0xC0 \<le> c \<and> c \<le> CHR 0xD6) \<or> (CHR 0xD8 \<le> c \<and> c \<le> CHR 0xF6)
      \<or> CHR 0xF8 \<le> c)"

function long_runs :: "(char \<Rightarrow> bool) \<Rightarrow> string \<Rightarrow> string list" where
  \<comment> \<open>the maximal runs of characters of one kind that are 3 or more long, from left to
      right. A run starts at the first such character of the text or after a character
      of another kind, and goes on to the next character of another kind.\<close>
  "long_runs P [] = []"
| "long_runs P (c # s) =
     (if P c
      then (if 3 \<le> length (takeWhile P (c # s)) then [takeWhile P (c # s)] else [])
           @ long_runs P (dropWhile P s)
      else long_runs P s)"
  by pat_completeness auto
termination
  by (relation "measure (\<lambda>(P, s). length s)") (auto simp: length_dropWhile_le less_Suc_eq_le)

definition spec_tokens :: "string \<Rightarrow> string list" where
  \<comment> \<open>the tokens in the specification's words: the maximal runs of 3 or more alphabetic
      characters\<close>
  "spec_tokens s = long_runs isalpha s"

definition ascii_tokens :: "string \<Rightarrow> string list" where
  \<comment> \<open>the maximal runs of 3 or more letters a to z or A to Z\<close>
  "ascii_tokens s = long_runs isletter s"

definition resume_john :: string where
  "resume_john =
     ''John Smith'' @ [CHR 0x0A] @ ''github.com/johnsmith99'' @ [CHR 0x0A]
     @ ''linkedin.com/in/johnsmith'' @ [CHR 0x0A] @ ''Graduated 2020'' @ [CHR 0x0A]
     @ ''5 years of experience''"

definition resume_fox :: string where
  "resume_fox = ''the quick brown fox jumps over the lazy dog and goes home''"

definition resume_jane :: string where
  "resume_jane =
     ''Jane Doe'' @ [CHR 0x0A] @ ''github.com/janedoe'' @ [CHR 0x0A]
     @ ''linkedin.com/in/janedoe'' @ [CHR 0x0A] @ ''42 years of experience in software''"

definition first_index :: "'a list \<Rightarrow> 'a \<Rightarrow> nat" where
  \<comment> \<open>where \<open>w\<close> first occurs in \<open>ws\<close> (the length of \<open>ws\<close> if it does not occur)\<close>
  "first_index ws w = length (takeWhile (\<lambda>x. x \<noteq> w) ws)"

definition firsts :: "'a list \<Rightarrow> 'a list" where
  \<comment> \<open>the distinct elements of a list, each at the place of its first occurrence\<close>
  "firsts ws = rev (remdups (rev ws))"

definition experience_digits :: "string \<Rightarrow> string option" where
  \<comment> \<open>the digits captured by the first match of the experience pattern\<close>
  "experience_digits text =
     (case search EXPERIENCE_PATTERN text of None \<Rightarrow> None | Some m \<Rightarrow> group1 m)"

definition resume_spam26 :: string where
  "resume_spam26 = concat (replicate 26 ''spam '')"

definition resume_spam25 :: string where
  "resume_spam25 = concat (replicate 25 ''spam '')"

definition resume_zeta_alpha :: string where
  "resume_zeta_alpha = concat (replicate 26 ''zeta alpha '')"

definition resume_naive26 :: string where
  \<comment> \<open>the word naive, spelt with U+00EF, 26 times\<close>
  "resume_naive26 = concat (replicate 26 ([CHR ''n'', CHR ''a'', CHR 0xEF, CHR ''v'', CHR ''e'', CHR '' '']))"

definition zeros_7_years :: string where
  \<comment> \<open>4300 zeros, then 7 years: 4307 characters\<close>
  "zeros_7_years = (replicate 4300 CHR ''0'' @ ''7'') @ '' years''"

definition fours_4301_years :: string where
  \<comment> \<open>4301 times the digit 4 and the word years: 4307 characters\<close>
  "fours_4301_years = replicate 4301 CHR ''4'' @ '' years''"

definition digits_4301_years :: string where
  \<comment> \<open>4301 digits and the word years: 4307 characters\<close>
  "digits_4301_years = replicate 4301 CHR ''1'' @ '' years''"

section \<open>The scoring rules only add\<close>

lemma fst_flag: "fst (flag n r a) = fst a + n"
  by (simp add: flag_def)

lemma presence_rules_nonneg: "0 \<le> fst a \<Longrightarrow> 0 \<le> fst (presence_rules g l a)"
  by (simp add: presence_rules_def Let_def fst_flag)

lemma mismatch_rule_nonneg: "0 \<le> fst a \<Longrightarrow> 0 \<le> fst (mismatch_rule site m n a)"
  by (simp add: mismatch_rule_def Let_def fst_flag split: option.splits)

lemma timeline_rules_nonneg: "0 \<le> fst a \<Longrightarrow> 0 \<le> fst (timeline_rules cy g e a)"
  by (simp add: timeline_rules_def Let_def fst_flag split: option.splits)

lemma repetition_rule_nonneg: "0 \<le> fst a \<Longrightarrow> 0 \<le> fst (repetition_rule text a)"
  by (simp add: repetition_rule_def Let_def fst_flag)

lemma unrealistic_rule_nonneg: "0 \<le> fst a \<Longrightarrow> 0 \<le> fst (unrealistic_rule e a)"
  by (auto simp: unrealistic_rule_def split: option.splits)

lemma profile_timeline_rules_nonneg: "0 \<le> fst (profile_timeline_rules cy text n g e)"
  unfolding profile_timeline_rules_def Let_def
  by (intro timeline_rules_nonneg mismatch_rule_nonneg presence_rules_nonneg) simp

lemma additive_rules_nonneg: "0 \<le> fst (additive_rules cy text n g e)"
  unfolding additive_rules_def
  by (intro repetition_rule_nonneg profile_timeline_rules_nonneg)

lemma check_fraud_long:
  assumes "\<not> length (strip text) < 50" and "check_fraud lim cy text fname = Inr r"
  shows "\<exists>n g e. extract_name text = Inr n \<and> extract_graduation_year lim text = Inr g \<and>
    extract_experience_years lim text = Inr e \<and>
    r = final_report fname text (unrealistic_rule e (additive_rules cy text n g e))"
  using assms by (auto simp: check_fraud_def split: sum.splits)

lemma score_final_report: "fraud_score (final_report f t a) = min (fst a) 100"
  by (simp add: final_report_def Let_def)

lemma status_final_report:
  "fraud_status (final_report f t a) = (if 50 \<le> fst a then ''Suspicious'' else ''Genuine'')"
  by (simp add: final_report_def Let_def)

lemma reasons_final_report: "reasons (final_report f t a) = snd a"
  by (simp add: final_report_def Let_def)

section \<open>What the patterns capture\<close>

lemma in_rmatch_Seq:
  "(p', g) \<in> set (rmatch fl (Seq a b) p) \<longleftrightarrow>
   (\<exists>p1 g1 g2. (p1, g1) \<in> set (rmatch fl a p) \<and> (p', g2) \<in> set (rmatch fl b p1)
      \<and> g = later g1 g2)"
  by (auto simp: image_iff) force+

lemma in_rmatch_Grp:
  "(p', g) \<in> set (rmatch fl (Grp a) p) \<longleftrightarrow>
   (\<exists>g0. (p', g0) \<in> set (rmatch fl a p) \<and> g = Some (consumed p p'))"
  by (auto simp: image_iff) force+

lemma no_group_None:
  "\<not> has_group r \<Longrightarrow> (p', g) \<in> set (rmatch fl r p) \<Longrightarrow> g = None"
proof (induction r arbitrary: p p' g)
  case (Seq a b)
  from Seq.prems(2) obtain p1 g1 g2 where
    m: "(p1, g1) \<in> set (rmatch fl a p)" "(p', g2) \<in> set (rmatch fl b p1)" "g = later g1 g2"
    unfolding in_rmatch_Seq by blast
  from Seq.prems(1) have "\<not> has_group a" "\<not> has_group b" by simp_all
  with m Seq.IH have "g1 = None" "g2 = None" by blast+
  with m(3) show ?case by (simp add: later_def)
qed (auto split: option.splits list.splits if_splits)

lemma captures_Some:
  "captures r \<Longrightarrow> (p', g) \<in> set (rmatch fl r p) \<Longrightarrow> g \<noteq> None"
proof (induction r arbitrary: p p' g)
  case (Seq a b)
  from Seq.prems(2) obtain p1 g1 g2 where
    m: "(p1, g1) \<in> set (rmatch fl a p)" "(p', g2) \<in> set (rmatch fl b p1)" "g = later g1 g2"
    unfolding in_rmatch_Seq by blast
  from Seq.prems(1) have "captures a \<or> captures b" by simp
  with m Seq.IH have "g1 \<noteq> None \<or> g2 \<noteq> None" by blast
  with m(3) show ?case by (auto simp: later_def split: option.splits)
next
  case (Alt a b)
  from Alt.prems have "captures a" "captures b"
    and "(p', g) \<in> set (rmatch fl a p) \<or> (p', g) \<in> set (rmatch fl b p)"
    by simp_all
  then show ?case using Alt.IH by blast
next
  case (Grp a)
  then show ?case by auto
qed simp_all

lemma lit_consumed:
  "lit fl s p = Some p' \<Longrightarrow> \<not> ignorecase fl \<Longrightarrow> snd p = s @ snd p'"
  by (induction fl s p rule: lit.induct) (auto simp: chr_eq_def split: if_splits)

lemma many_consumed:
  "p' \<in> set (many cs m p) \<Longrightarrow>
   \<exists>ks. snd p = ks @ snd p' \<and> m \<le> length ks \<and> list_all (in_class cs) ks"
proof (induction cs m p rule: many.induct)
  case (1 cs m pv)
  then show ?case by (auto split: if_splits)
next
  case (2 cs m pv c s)
  from "2.prems" consider
    (more) "in_class cs c" "p' \<in> set (many cs (m - 1) (Some c, s))"
    | (stop) "m = 0" "p' = (pv, c # s)"
    by (auto split: if_splits)
  then show ?case
  proof cases
    case more
    with "2.IH" obtain ks where "s = ks @ snd p'" "m - 1 \<le> length ks" "list_all (in_class cs) ks"
      by auto
    with more show ?thesis
      by (intro exI [of _ "c # ks"]) auto
  next
    case stop
    then show ?thesis by auto
  qed
qed

lemma consumed_append: "snd p = ks @ snd p' \<Longrightarrow> consumed p p' = ks"
  by (simp add: consumed_def)

lemma match_at_in_rmatch:
  "match_at pat p = Some m \<Longrightarrow>
   \<exists>p'. (p', group1 m) \<in> set (rmatch (pflags pat) (rx pat) p)"
proof -
  assume "match_at pat p = Some m"
  then obtain p' rest where "rmatch (pflags pat) (rx pat) p = (p', group1 m) # rest"
    by (auto simp: match_at_def split: list.splits)
  then have "(p', group1 m) \<in> set (rmatch (pflags pat) (rx pat) p)" by simp
  then show ?thesis ..
qed

lemma search_from_in_rmatch:
  "search_from pat pv s = Some m \<Longrightarrow>
   \<exists>p p'. (p', group1 m) \<in> set (rmatch (pflags pat) (rx pat) p)"
proof (induction s arbitrary: pv)
  case Nil
  then show ?case using match_at_in_rmatch by fastforce
next
  case (Cons c s)
  then show ?case using match_at_in_rmatch by (fastforce split: option.splits)
qed

lemma finditer_from_in_rmatch:
  "m \<in> set (finditer_from pat pv s) \<Longrightarrow>
   \<exists>p p'. (p', group1 m) \<in> set (rmatch (pflags pat) (rx pat) p)"
proof (induction pat pv s rule: finditer_from.induct)
  case (1 pat pv s)
  show ?case
  proof (cases "search_from pat pv s")
    case None
    with "1.prems" show ?thesis by (simp add: finditer_from.simps [of pat pv s])
  next
    case (Some m0)
    let ?tl = "if length (snd (mend m0)) < length s
               then finditer_from pat (fst (mend m0)) (snd (mend m0))
               else (case s of [] \<Rightarrow> [] | c # s' \<Rightarrow> finditer_from pat (Some c) s')"
    from Some have "finditer_from pat pv s = m0 # ?tl"
      by (simp add: finditer_from.simps [of pat pv s])
    with "1.prems" consider "m = m0" | "m \<in> set ?tl" by auto
    then show ?thesis
    proof cases
      case 1
      with search_from_in_rmatch [OF Some] show ?thesis by simp
    next
      case 2
      show ?thesis
      proof (cases "length (snd (mend m0)) < length s")
        case True
        with 2 "1.IH"(1) [OF Some True] show ?thesis by simp
      next
        case False
        with 2 obtain c s' where s: "s = c # s'" and "m \<in> set (finditer_from pat (Some c) s')"
          by (auto split: list.splits)
        with "1.IH"(2) [OF Some False s] show ?thesis by simp
      qed
    qed
  qed
qed

lemma py_int_19: "py_int lim ''19'' = Inr 19"
  by (simp add: py_int_def isdecimal_def digit_value_def)

lemma py_int_20: "py_int lim ''20'' = Inr 20"
  by (simp add: py_int_def isdecimal_def digit_value_def)

lemma in_rmatch_Lit:
  "(p', g) \<in> set (rmatch fl (Lit s) p) \<longleftrightarrow> lit fl s p = Some p' \<and> g = None"
  by (cases "lit fl s p") auto

lemma in_rmatch_Alt:
  "x \<in> set (rmatch fl (Alt a b) p) \<longleftrightarrow> x \<in> set (rmatch fl a p) \<or> x \<in> set (rmatch fl b p)"
  by simp

lemma year_groups:
  assumes "(p', g) \<in> set (rmatch (pflags YEAR_PATTERN) (rx YEAR_PATTERN) p)"
  shows "\<exists>y. g = Some y \<and> (y = ''19'' \<or> y = ''20'')"
proof -
  let ?fl = "pflags YEAR_PATTERN"
  let ?tail = "Seq (exactly 2 (Cls [Digit])) WordB"
  have ic: "\<not> ignorecase ?fl" by (simp add: YEAR_PATTERN_def)
  have rx: "rx YEAR_PATTERN = Seq WordB (Seq (Grp (Alt (Lit ''19'') (Lit ''20''))) ?tail)"
    by (simp add: YEAR_PATTERN_def)
  from assms obtain p0 g0 p1 g1 g2 where
    g: "(p0, g0) \<in> set (rmatch ?fl WordB p)"
       "(p1, g1) \<in> set (rmatch ?fl (Grp (Alt (Lit ''19'') (Lit ''20''))) p0)"
       "(p', g2) \<in> set (rmatch ?fl ?tail p1)" "g = later g0 (later g1 g2)"
    unfolding rx in_rmatch_Seq by blast
  have "\<not> has_group ?tail" by (simp add: numeral_2_eq_2)
  from no_group_None [OF this g(3)] have g2: "g2 = None" .
  from g(2) have g1: "g1 = Some (consumed p0 p1)"
    and "lit ?fl ''19'' p0 = Some p1 \<or> lit ?fl ''20'' p0 = Some p1"
    unfolding in_rmatch_Grp in_rmatch_Alt in_rmatch_Lit by blast+
  with lit_consumed [OF _ ic] consumed_append
  have "consumed p0 p1 = ''19'' \<or> consumed p0 p1 = ''20''" by metis
  with g(4) g1 g2 show ?thesis by (simp add: later_def)
qed

lemma ints_of_years:
  "\<forall>y \<in> set ys. y = ''19'' \<or> y = ''20'' \<Longrightarrow>
   \<exists>ns. ints_of lim ys = Inr ns \<and> (\<forall>n \<in> set ns. n = 19 \<or> n = 20)"
proof (induction ys)
  case Nil
  show ?case by simp
next
  case (Cons y ys)
  then obtain ns where ns: "ints_of lim ys = Inr ns" "\<forall>n \<in> set ns. n = 19 \<or> n = 20"
    by auto
  from Cons.prems have "py_int lim y = Inr 19 \<or> py_int lim y = Inr 20"
    using py_int_19 py_int_20 by auto
  with ns show ?case by auto
qed

lemma findall_years:
  assumes "y \<in> set (findall YEAR_PATTERN text)"
  shows "y = ''19'' \<or> y = ''20''"
proof -
  have h: "has_group (rx YEAR_PATTERN)" by (simp add: YEAR_PATTERN_def)
  from assms h obtain m where m: "m \<in> set (finditer_from YEAR_PATTERN None text)"
    and y: "y = (case group1 m of None \<Rightarrow> [] | Some g \<Rightarrow> g)"
    by (auto simp: findall_def finditer_def)
  from finditer_from_in_rmatch [OF m] year_groups
  have "group1 m = Some ''19'' \<or> group1 m = Some ''20''" by blast
  with y show ?thesis by auto
qed

lemma extract_graduation_year_None: "extract_graduation_year lim text = Inr None"
proof -
  have "\<forall>y \<in> set (findall YEAR_PATTERN text). y = ''19'' \<or> y = ''20''"
    using findall_years by blast
  from ints_of_years [OF this] obtain ns where
    ns: "ints_of lim (findall YEAR_PATTERN text) = Inr ns" "\<forall>n \<in> set ns. n = 19 \<or> n = 20"
    by blast
  from ns(2) have "filter (\<lambda>y. 1970 \<le> y \<and> y \<le> 2099) ns = []"
    by (auto simp: filter_empty_conv)
  with ns(1) show ?thesis by (simp add: extract_graduation_year_def)
qed

section \<open>Counting words, and the helpers that cannot fail\<close>

lemma set_firsts: "set (firsts ws) = set ws"
  by (simp add: firsts_def)

lemma distinct_firsts: "distinct (firsts ws)"
  by (simp add: firsts_def)

lemma firsts_snoc: "firsts (ws @ [w]) = (if w \<in> set ws then firsts ws else firsts ws @ [w])"
  by (simp add: firsts_def)

lemma counter_add_map:
  "distinct ks \<Longrightarrow>
   counter_add (map (\<lambda>v. (v, f v)) ks) w =
     (if w \<in> set ks then map (\<lambda>v. (v, if v = w then f v + 1 else f v)) ks
      else map (\<lambda>v. (v, f v)) ks @ [(w, 1)])"
  by (induction ks) auto

lemma Counter_snoc: "Counter (ws @ [w]) = counter_add (Counter ws) w"
  by (simp add: Counter_def)

lemma Counter_eq: "Counter ws = map (\<lambda>w. (w, count_list ws w)) (firsts ws)"
proof (induction ws rule: rev_induct)
  case Nil
  show ?case by (simp add: Counter_def firsts_def)
next
  case (snoc w ws)
  show ?case
  proof (cases "w \<in> set ws")
    case True
    then show ?thesis
      by (simp add: Counter_snoc snoc.IH counter_add_map distinct_firsts set_firsts
          firsts_snoc)
  next
    case False
    then show ?thesis
      by (auto simp: Counter_snoc snoc.IH counter_add_map distinct_firsts set_firsts
          firsts_snoc count_list_0_iff)
  qed
qed

lemma first_index_less: "w \<in> set ws \<Longrightarrow> first_index ws w < length ws"
  unfolding first_index_def by (induction ws) auto

lemma first_index_snoc_old: "u \<in> set ws \<Longrightarrow> first_index (ws @ [w]) u = first_index ws u"
  by (simp add: first_index_def)

lemma first_index_snoc_new: "w \<notin> set ws \<Longrightarrow> first_index (ws @ [w]) w = length ws"
  unfolding first_index_def by (induction ws) auto

lemma sorted_firsts: "sorted_wrt (\<lambda>u v. first_index ws u < first_index ws v) (firsts ws)"
proof (induction ws rule: rev_induct)
  case Nil
  show ?case by (simp add: firsts_def)
next
  case (snoc w ws)
  have old: "sorted_wrt (\<lambda>u v. first_index (ws @ [w]) u < first_index (ws @ [w]) v) (firsts ws)"
    by (rule sorted_wrt_mono_rel [OF _ snoc.IH]) (simp add: set_firsts first_index_snoc_old)
  show ?case
  proof (cases "w \<in> set ws")
    case True
    with old show ?thesis by (simp add: firsts_snoc)
  next
    case False
    with old show ?thesis
      by (simp add: firsts_snoc sorted_wrt_append set_firsts first_index_snoc_old
          first_index_snoc_new first_index_less)
  qed
qed

lemma repeated_words_eq:
  "repeated_words text =
   filter (\<lambda>w. 25 < count_list (findall WORD_PATTERN (lower text)) w)
     (firsts (findall WORD_PATTERN (lower text)))"
  by (simp add: repeated_words_def Let_def Counter_eq filter_map comp_def)

lemma set_repeated_words:
  "set (repeated_words text) = {w. 25 < count_list (findall WORD_PATTERN (lower text)) w}"
  by (auto simp: repeated_words_eq set_firsts count_list_0_iff intro: ccontr)

lemma search_in_rmatch:
  "search pat text = Some m \<Longrightarrow>
   \<exists>p p'. (p', group1 m) \<in> set (rmatch (pflags pat) (rx pat) p)"
  unfolding search_def by (rule search_from_in_rmatch)

lemma extract_name_total: "\<exists>n. extract_name text = Inr n"
proof (cases "search NAME_PATTERN text")
  case None
  then show ?thesis by (simp add: extract_name_def)
next
  case (Some m)
  have "captures (rx NAME_PATTERN)" by (simp add: NAME_PATTERN_def)
  with search_in_rmatch [OF Some] captures_Some have "group1 m \<noteq> None" by blast
  with Some show ?thesis by (auto simp: extract_name_def)
qed

lemma in_rmatch_Many:
  "(p', g) \<in> set (rmatch fl (Many m cs) p) \<longleftrightarrow> p' \<in> set (many cs m p) \<and> g = None"
  by auto

lemma experience_groups:
  assumes "(p', g) \<in> set (rmatch (pflags EXPERIENCE_PATTERN) (rx EXPERIENCE_PATTERN) p)"
  shows "\<exists>ds. g = Some ds \<and> ds \<noteq> [] \<and> list_all isdecimal ds"
proof -
  let ?fl = "pflags EXPERIENCE_PATTERN"
  obtain tail where rx: "rx EXPERIENCE_PATTERN = Seq (Grp (Many 1 [Digit])) tail"
    and tail: "\<not> has_group tail"
    by (simp add: EXPERIENCE_PATTERN_def)
  from assms obtain p1 g1 g2 where
    g: "(p1, g1) \<in> set (rmatch ?fl (Grp (Many 1 [Digit])) p)"
       "(p', g2) \<in> set (rmatch ?fl tail p1)" "g = later g1 g2"
    unfolding rx in_rmatch_Seq by blast
  from no_group_None [OF tail g(2)] have g2: "g2 = None" .
  from g(1) have g1: "g1 = Some (consumed p p1)" and "p1 \<in> set (many [Digit] 1 p)"
    unfolding in_rmatch_Grp in_rmatch_Many by blast+
  from many_consumed [OF this(2)] obtain ks where
    ks: "snd p = ks @ snd p1" "1 \<le> length ks" "list_all (in_class [Digit]) ks"
    by blast
  from ks(3) have "list_all isdecimal ks" by (simp add: in_class_def list_all_iff)
  moreover from ks(2) have "ks \<noteq> []" by auto
  moreover from g(3) g1 g2 consumed_append [OF ks(1)] have "g = Some ks"
    by (simp add: later_def)
  ultimately show ?thesis by blast
qed

lemma experience_digits_Some:
  "search EXPERIENCE_PATTERN text = Some m \<Longrightarrow>
   \<exists>ds. group1 m = Some ds \<and> ds \<noteq> [] \<and> list_all isdecimal ds"
  using search_in_rmatch experience_groups by blast

lemma extract_experience_years_eq:
  "extract_experience_years lim text =
     (case experience_digits text of None \<Rightarrow> Inr None
      | Some ds \<Rightarrow>
          if 640 < length ds \<and> 0 < lim \<and> lim < length ds then Inl ValueError
          else Inr (Some (foldl (\<lambda>a c. 10 * a + digit_value c) 0 ds)))"
proof (cases "search EXPERIENCE_PATTERN text")
  case None
  then show ?thesis by (simp add: extract_experience_years_def experience_digits_def)
next
  case (Some m)
  from experience_digits_Some [OF Some] obtain ds where
    "group1 m = Some ds" "ds \<noteq> []" "list_all isdecimal ds" by blast
  with Some show ?thesis
    by (simp add: extract_experience_years_def experience_digits_def py_int_def)
qed

lemma check_fraud_long_eq:
  assumes "50 \<le> length (strip text)" and "extract_name text = Inr n"
    and "extract_experience_years lim text = Inr e"
  shows "check_fraud lim cy text fname =
     Inr (final_report fname text (unrealistic_rule e (additive_rules cy text n None e)))"
  using assms by (simp add: check_fraud_def extract_graduation_year_None)

lemma check_fraud_raises:
  assumes "50 \<le> length (strip text)" and "extract_experience_years lim text = Inl err"
  shows "check_fraud lim cy text fname = Inl err"
proof -
  from extract_name_total obtain n where "extract_name text = Inr n" by blast
  with assms show ?thesis by (simp add: check_fraud_def extract_graduation_year_None)
qed

lemma presence_rules_eq:
  "presence_rules g l (s, rs) =
     (s + (if g = None then 25 else 0) + (if l = None then 25 else 0),
      rs @ (if g = None then [''Missing GitHub profile URL''] else [])
         @ (if l = None then [''Missing LinkedIn profile URL''] else []))"
  by (simp add: presence_rules_def flag_def Let_def)

lemma distinct_repeated_words: "distinct (repeated_words text)"
  by (simp add: repeated_words_eq distinct_firsts)

lemma repetition_rule_eq:
  "repetition_rule text a =
     (if \<exists>w. 26 \<le> count_list (findall WORD_PATTERN (lower text)) w
      then (fst a + 15,
            snd a @ [''Words repeated excessively (>25 times): ''
                     @ join '', '' (take 5 (repeated_words text))])
      else a)"
proof -
  have "repeated_words text \<noteq> [] \<longleftrightarrow> set (repeated_words text) \<noteq> {}"
    by simp
  also have "\<dots> \<longleftrightarrow> (\<exists>w. 25 < count_list (findall WORD_PATTERN (lower text)) w)"
    unfolding set_repeated_words by blast
  also have "\<dots> \<longleftrightarrow> (\<exists>w. 26 \<le> count_list (findall WORD_PATTERN (lower text)) w)"
    by (simp add: Suc_le_eq [symmetric])
  finally have "repeated_words text \<noteq> [] \<longleftrightarrow>
        (\<exists>w. 26 \<le> count_list (findall WORD_PATTERN (lower text)) w)" .
  then show ?thesis
    by (simp add: repetition_rule_def repetition_reason_def flag_def)
qed

lemma nth_first_index: "w \<in> set ws \<Longrightarrow> ws ! first_index ws w = w"
  using nth_length_takeWhile [of "\<lambda>x. x \<noteq> w" ws] first_index_less [of w ws]
  by (simp add: first_index_def)

lemma first_index_inj_on: "inj_on (first_index ws) (set ws)"
  by (rule inj_onI) (metis nth_first_index)

lemma sorted_first_index_unique:
  assumes "sorted_wrt (\<lambda>u v. first_index ws u < first_index ws v) xs"
    and "sorted_wrt (\<lambda>u v. first_index ws u < first_index ws v) ys"
    and "set xs = set ys" and "set ys \<subseteq> set ws"
  shows "xs = ys"
proof -
  from assms(1,2) have "sorted_wrt (<) (map (first_index ws) xs)"
    "sorted_wrt (<) (map (first_index ws) ys)"
    by (simp_all add: sorted_wrt_map)
  moreover from assms(3) have "set (map (first_index ws) xs) = set (map (first_index ws) ys)"
    by simp
  ultimately have "map (first_index ws) xs = map (first_index ws) ys"
    by (metis strict_sorted_equal)
  moreover from assms(3,4) first_index_inj_on [of ws]
  have "inj_on (first_index ws) (set xs \<union> set ys)"
    by (auto intro: inj_on_subset)
  ultimately show ?thesis by (simp add: inj_on_map_eq_map)
qed

lemma sorted_repeated_words:
  "sorted_wrt (\<lambda>u v. first_index (findall WORD_PATTERN (lower text)) u
                     < first_index (findall WORD_PATTERN (lower text)) v)
     (repeated_words text)"
  unfolding repeated_words_eq by (intro sorted_wrt_filter sorted_firsts)

lemma repeated_words_subset:
  "set (repeated_words text) \<subseteq> set (findall WORD_PATTERN (lower text))"
  by (auto simp: repeated_words_eq set_firsts)

section \<open>When the experience figure cannot be converted\<close>

lemma strip_id: "s \<noteq> [] \<Longrightarrow> \<not> isspace (hd s) \<Longrightarrow> \<not> isspace (last s) \<Longrightarrow> strip s = s"
proof -
  assume s: "s \<noteq> []" and h: "\<not> isspace (hd s)" and l: "\<not> isspace (last s)"
  from s l have "dropWhile isspace (rev s) = rev s"
    by (cases s rule: rev_cases) auto
  with s h show ?thesis by (cases s) (auto simp: strip_def)
qed

lemma many_stop:
  "(case s of [] \<Rightarrow> True | c # _ \<Rightarrow> \<not> in_class cs c) \<Longrightarrow> many cs 0 (pv, s) = [(pv, s)]"
  by (cases s) auto

lemma many_greedy:
  "ks \<noteq> [] \<Longrightarrow> list_all (in_class cs) ks \<Longrightarrow> m \<le> length ks \<Longrightarrow>
   (case s of [] \<Rightarrow> True | c # _ \<Rightarrow> \<not> in_class cs c) \<Longrightarrow>
   \<exists>rest. many cs m (pv, ks @ s) = (Some (last ks), s) # rest"
proof (induction ks arbitrary: m pv)
  case Nil
  then show ?case by simp
next
  case (Cons k ks)
  show ?case
  proof (cases "ks = []")
    case True
    with Cons.prems have "m - 1 = 0" by simp
    with True Cons.prems many_stop [where s = s and cs = cs and pv = "Some k"] show ?thesis by simp
  next
    case False
    from Cons.prems have "list_all (in_class cs) ks" "m - 1 \<le> length ks" by auto
    from Cons.IH [OF False this Cons.prems(4)] obtain rest where
      "many cs (m - 1) (Some k, ks @ s) = (Some (last ks), s) # rest" by blast
    with False Cons.prems show ?thesis by simp
  qed
qed

lemma rmatch_Seq_first:
  "rmatch fl a p = (p1, g1) # ra \<Longrightarrow> rmatch fl b p1 = (p2, g2) # rb \<Longrightarrow>
   \<exists>rest. rmatch fl (Seq a b) p = (p2, later g1 g2) # rest"
  by simp

lemma search_from_hit: "match_at pat (pv, s) = Some m \<Longrightarrow> search_from pat pv s = Some m"
  by (cases s) auto

lemma experience_digits_run:
  assumes "ks \<noteq> []" and "list_all isdecimal ks"
  shows "experience_digits (ks @ '' years'') = Some ks"
proof -
  let ?fl = "\<lparr>ignorecase = True, multiline = False\<rparr>"
  let ?tail = "seqs [Opt (Lit ''+''), Many 0 [Space],
            Alt (Seq (Lit ''year'') (Opt (Lit ''s''))) (Seq (Lit ''yr'') (Opt (Lit ''s''))),
            Many 0 [Space], Opt (Seq (Lit ''of'') (Many 1 [Space])),
            Opt (Alt (Lit ''experience'') (Lit ''exp''))]"
  let ?p = "(None, ks @ '' years'')"
  have fl: "pflags EXPERIENCE_PATTERN = ?fl"
    and rx: "rx EXPERIENCE_PATTERN = Seq (Grp (Many 1 [Digit])) ?tail"
    by (simp_all add: EXPERIENCE_PATTERN_def)
  have sp: "\<not> in_class [Digit] CHR '' ''"
    by (simp add: in_class_def isdecimal_def)
  from assms have "list_all (in_class [Digit]) ks" "1 \<le> length ks"
    by (simp_all add: in_class_def list_all_iff Suc_le_eq)
  from many_greedy [OF assms(1) this, of "'' years''" None] sp obtain rest where
    m: "many [Digit] 1 ?p = (Some (last ks), '' years'') # rest" by auto
  have c: "consumed ?p (Some (last ks), '' years'') = ks"
    by (simp add: consumed_def)
  have t: "\<And>c. rmatch ?fl ?tail (Some c, '' years'') =
              [((Some CHR ''s'', []), None), ((Some CHR ''r'', ''s''), None)]"
    by (simp add: chr_eq_def lower_char_def in_class_def isspace_def later_def)
  from m c have "\<exists>rest. rmatch ?fl (Grp (Many 1 [Digit])) ?p =
      ((Some (last ks), '' years''), Some ks) # rest"
    by simp
  then obtain ra where g: "rmatch ?fl (Grp (Many 1 [Digit])) ?p =
      ((Some (last ks), '' years''), Some ks) # ra" by blast
  from rmatch_Seq_first [OF g t] obtain rest' where
    "rmatch ?fl (Seq (Grp (Many 1 [Digit])) ?tail) ?p =
      ((Some CHR ''s'', []), later (Some ks) None) # rest'" by blast
  then have "\<exists>m. match_at EXPERIENCE_PATTERN ?p = Some m \<and> group1 m = Some ks"
    by (simp add: match_at_def fl rx later_def del: rmatch.simps seqs.simps)
  then obtain m where "search EXPERIENCE_PATTERN (ks @ '' years'') = Some m" "group1 m = Some ks"
    unfolding search_def using search_from_hit by blast
  then show ?thesis by (simp add: experience_digits_def)
qed

lemma check_fraud_over_limit:
  assumes "50 \<le> length (strip text)" and "experience_digits text = Some ds"
    and "640 < length ds" and "0 < lim" and "lim < length ds"
  shows "check_fraud lim cy text fname = Inl ValueError"
proof -
  from assms(2-5) have "extract_experience_years lim text = Inl ValueError"
    by (simp add: extract_experience_years_eq)
  with assms(1) show ?thesis by (rule check_fraud_raises)
qed

lemma check_fraud_within_limit:
  assumes "\<not> (50 \<le> length (strip text)
         \<and> (\<exists>ds. experience_digits text = Some ds \<and> 640 < length ds \<and> 0 < lim
                \<and> lim < length ds))"
  shows "\<exists>r. check_fraud lim cy text fname = Inr r"
proof -
  from extract_name_total obtain n where n: "extract_name text = Inr n" by blast
  from assms show ?thesis
    by (auto simp: check_fraud_def n extract_graduation_year_None extract_experience_years_eq
        split: option.splits)
qed

lemma digits_4301_years_facts:
  "50 \<le> length (strip digits_4301_years)"
  "experience_digits digits_4301_years = Some (replicate 4301 CHR ''1'')"
proof -
  have "strip digits_4301_years = digits_4301_years"
    unfolding digits_4301_years_def by (rule strip_id) (simp_all add: isspace_def hd_append)
  then show "50 \<le> length (strip digits_4301_years)"
    by (simp add: digits_4301_years_def)
  show "experience_digits digits_4301_years = Some (replicate 4301 CHR ''1'')"
    unfolding digits_4301_years_def
    by (rule experience_digits_run) (simp_all add: list_all_iff isdecimal_def)
qed

section \<open>The tokens of the repeated-word check\<close>

lemma in_class_letters: "in_class [Rng CHR ''a'' CHR ''z'', Rng CHR ''A'' CHR ''Z''] = isletter"
  by (auto simp: in_class_def isletter_def fun_eq_iff)

lemma many_short: "length (takeWhile (in_class cs) s) < m \<Longrightarrow> many cs m (pv, s) = []"
proof (induction s arbitrary: m pv)
  case Nil
  then show ?case by simp
next
  case (Cons c s)
  then show ?case by (cases "in_class cs c") auto
qed

lemma many_long:
  assumes "m \<le> length (takeWhile (in_class cs) s)" and "takeWhile (in_class cs) s \<noteq> []"
  shows "\<exists>rest. many cs m (pv, s) =
           (Some (last (takeWhile (in_class cs) s)), dropWhile (in_class cs) s) # rest"
proof -
  have "list_all (in_class cs) (takeWhile (in_class cs) s)"
    by (auto simp: list_all_iff dest: set_takeWhileD)
  moreover have "case dropWhile (in_class cs) s of [] \<Rightarrow> True | c # _ \<Rightarrow> \<not> in_class cs c"
    by (auto simp: dropWhile_eq_Cons_conv split: list.splits)
  ultimately show ?thesis
    using many_greedy [OF assms(2) _ assms(1), where s = "dropWhile (in_class cs) s" and pv = pv]
    by simp
qed

lemma take_length_dropWhile: "take (length s - length (dropWhile P s)) s = takeWhile P s"
proof -
  have "length s = length (takeWhile P s) + length (dropWhile P s)"
    by (metis length_append takeWhile_dropWhile_id)
  then have "length s - length (dropWhile P s) = length (takeWhile P s)" by simp
  then show ?thesis by (simp add: takeWhile_eq_take [symmetric])
qed

lemma match_at_word_short:
  "length (takeWhile isletter s) < 3 \<Longrightarrow> match_at WORD_PATTERN (pv, s) = None"
  by (simp add: match_at_def WORD_PATTERN_def in_class_letters many_short)

lemma match_at_word_long:
  assumes "3 \<le> length (takeWhile isletter s)"
  shows "\<exists>m. match_at WORD_PATTERN (pv, s) = Some m \<and> group0 m = takeWhile isletter s
           \<and> snd (mend m) = dropWhile isletter s"
proof -
  from assms have "takeWhile isletter s \<noteq> []" by auto
  from many_long [where m = 3 and cs = "[Rng CHR ''a'' CHR ''z'', Rng CHR ''A'' CHR ''Z'']"
      and s = s and pv = pv] assms this
  obtain rest where
    "many [Rng CHR ''a'' CHR ''z'', Rng CHR ''A'' CHR ''Z''] 3 (pv, s) =
       (Some (last (takeWhile isletter s)), dropWhile isletter s) # rest"
    by (auto simp: in_class_letters)
  then show ?thesis
    by (simp add: match_at_def WORD_PATTERN_def consumed_def take_length_dropWhile)
qed

lemma search_from_word_shorter:
  "search_from WORD_PATTERN pv s = Some m \<Longrightarrow> length (snd (mend m)) < length s"
proof (induction s arbitrary: pv)
  case Nil
  then show ?case by (simp add: match_at_word_short)
next
  case (Cons c s)
  show ?case
  proof (cases "3 \<le> length (takeWhile isletter (c # s))")
    case True
    from match_at_word_long [OF True, of pv] Cons.prems True
    have "snd (mend m) = dropWhile isletter (c # s)" by auto
    moreover from True have "isletter c" by (auto split: if_splits)
    ultimately show ?thesis by (simp add: length_dropWhile_le less_Suc_eq_le)
  next
    case False
    then have "match_at WORD_PATTERN (pv, c # s) = None"
      by (intro match_at_word_short) simp
    with Cons.prems have "search_from WORD_PATTERN (Some c) s = Some m" by simp
    from Cons.IH [OF this] show ?thesis by simp
  qed
qed

lemma long_runs_short:
  "length (takeWhile isletter s) < 3 \<Longrightarrow> long_runs isletter s = long_runs isletter (dropWhile isletter s)"
  by (cases s) auto

lemma finditer_word_runs: "map group0 (finditer_from WORD_PATTERN pv s) = long_runs isletter s"
proof (induction "length s" arbitrary: s pv rule: less_induct)
  case less
  show ?case
  proof (cases s)
    case Nil
    then show ?thesis
      by (simp add: finditer_from.simps [of _ _ "[]"] match_at_word_short)
  next
    case (Cons c s')
    show ?thesis
    proof (cases "3 \<le> length (takeWhile isletter s)")
      case True
      from match_at_word_long [OF True, of pv] obtain m where
        m: "match_at WORD_PATTERN (pv, s) = Some m" "group0 m = takeWhile isletter s"
           "snd (mend m) = dropWhile isletter s" by blast
      from True Cons have c: "isletter c" by (auto split: if_splits)
      with Cons have shorter: "length (dropWhile isletter s) < length s"
        by (simp add: length_dropWhile_le less_Suc_eq_le)
      from m(1) have "search_from WORD_PATTERN pv s = Some m" by (rule search_from_hit)
      with m shorter have "finditer_from WORD_PATTERN pv s =
          m # finditer_from WORD_PATTERN (fst (mend m)) (dropWhile isletter s)"
        by (simp add: finditer_from.simps [of _ pv s])
      with less [OF shorter] m(2) True c Cons show ?thesis by simp
    next
      case False
      then have short: "length (takeWhile isletter s) < 3" by simp
      with Cons have miss: "search_from WORD_PATTERN pv s = search_from WORD_PATTERN (Some c) s'"
        by (simp add: match_at_word_short)
      have "finditer_from WORD_PATTERN pv s = finditer_from WORD_PATTERN (Some c) s'"
      proof (cases "search_from WORD_PATTERN (Some c) s'")
        case None
        with miss show ?thesis
          by (simp add: finditer_from.simps [of _ pv s] finditer_from.simps [of _ "Some c" s'])
      next
        case (Some m)
        from search_from_word_shorter [OF Some] Cons
        have "length (snd (mend m)) < length s'" "length (snd (mend m)) < length s" by simp_all
        with miss Some show ?thesis
          by (simp add: finditer_from.simps [of _ pv s] finditer_from.simps [of _ "Some c" s'])
      qed
      also from Cons have "map group0 \<dots> = long_runs isletter s'"
        by (intro less) simp
      also have "long_runs isletter s' = long_runs isletter s"
      proof (cases "isletter c")
        case True
        with short Cons have "length (takeWhile isletter s') < 3" by simp
        from long_runs_short [OF this] long_runs_short [OF short] True Cons
        show ?thesis by simp
      next
        case False
        with Cons show ?thesis by simp
      qed
      finally show ?thesis .
    qed
  qed
qed

lemma findall_word_runs: "findall WORD_PATTERN s = long_runs isletter s"
  by (simp add: findall_def finditer_def WORD_PATTERN_def
      finditer_word_runs [unfolded WORD_PATTERN_def])

section \<open>Texts whose experience figure is too long to convert\<close>

lemma findall_ascii_tokens: "findall WORD_PATTERN s = ascii_tokens s"
  by (simp add: findall_word_runs ascii_tokens_def)

lemma search_from_replicate:
  assumes "\<And>pv s. match_at pat (pv, c # s) = None"
  shows "search_from pat pv (replicate (Suc n) c @ rest) = search_from pat (Some c) rest"
proof (induction n arbitrary: pv)
  case 0
  show ?case by (simp add: assms)
next
  case (Suc n)
  have "search_from pat pv (replicate (Suc (Suc n)) c @ rest) =
        search_from pat (Some c) (replicate (Suc n) c @ rest)"
    by (simp add: assms)
  with Suc show ?case by simp
qed

lemma github_miss_zero: "match_at GITHUB_PATTERN (pv, CHR ''0'' # s) = None"
  by (simp add: match_at_def GITHUB_PATTERN_def url_prefix_def chr_eq_def lower_char_def)

lemma linkedin_miss_zero: "match_at LINKEDIN_PATTERN (pv, CHR ''0'' # s) = None"
  by (simp add: match_at_def LINKEDIN_PATTERN_def url_prefix_def chr_eq_def lower_char_def)

lemma long_runs_replicate: "\<not> P c \<Longrightarrow> long_runs P (replicate n c @ s) = long_runs P s"
  by (induction n) simp_all

lemma digits_value_zeros:
  "foldl (\<lambda>a c. 10 * a + digit_value c) 0 (replicate n CHR ''0'') = 0"
  by (induction n) (simp_all add: digit_value_def)

lemma digits_value_ge:
  "0 \<le> digit_value c \<Longrightarrow> 0 \<le> a \<Longrightarrow>
   a \<le> foldl (\<lambda>a c. 10 * a + digit_value c) a (replicate n c)"
proof (induction n arbitrary: a)
  case 0
  show ?case by simp
next
  case (Suc n)
  from Suc.prems have "a \<le> 10 * a + digit_value c" "0 \<le> 10 * a + digit_value c" by simp_all
  with Suc.IH [OF Suc.prems(1), of "10 * a + digit_value c"] show ?case by simp
qed

lemma digits_value_fours:
  "40 < foldl (\<lambda>a c. 10 * a + digit_value c) 0 (replicate (Suc (Suc k)) CHR ''4'')"
proof -
  have d: "digit_value CHR ''4'' = 4" by (simp add: digit_value_def)
  from digits_value_ge [of "CHR ''4''" 44 k] d
  have "44 \<le> foldl (\<lambda>a c. 10 * a + digit_value c) 44 (replicate k CHR ''4'')" by simp
  then show ?thesis by (simp add: d)
qed

lemma zeros_7_years_facts:
  "50 \<le> length (strip zeros_7_years)"
  "search GITHUB_PATTERN zeros_7_years = None"
  "search LINKEDIN_PATTERN zeros_7_years = None"
  "repeated_words zeros_7_years = []"
  "experience_digits zeros_7_years = Some (replicate 4300 CHR ''0'' @ ''7'')"
  "foldl (\<lambda>a c. 10 * a + digit_value c) 0 (replicate 4300 CHR ''0'' @ ''7'') = 7"
proof -
  have n: "(4300::nat) = Suc 4299" by simp
  have "strip zeros_7_years = zeros_7_years"
    unfolding zeros_7_years_def by (rule strip_id) (simp_all add: isspace_def hd_append)
  then show "50 \<le> length (strip zeros_7_years)"
    by (simp add: zeros_7_years_def)
  have g: "search_from GITHUB_PATTERN (Some CHR ''0'') ''7 years'' = None"
    and l: "search_from LINKEDIN_PATTERN (Some CHR ''0'') ''7 years'' = None"
    by code_simp+
  show "search GITHUB_PATTERN zeros_7_years = None"
    unfolding search_def zeros_7_years_def n
    using search_from_replicate [of GITHUB_PATTERN "CHR ''0''" None 4299 "''7 years''",
        OF github_miss_zero] g
    by simp
  show "search LINKEDIN_PATTERN zeros_7_years = None"
    unfolding search_def zeros_7_years_def n
    using search_from_replicate [of LINKEDIN_PATTERN "CHR ''0''" None 4299 "''7 years''",
        OF linkedin_miss_zero] l
    by simp
  have z: "lower_char CHR ''0'' = CHR ''0''" "\<not> isletter CHR ''0''"
    by (simp_all add: lower_char_def isletter_def)
  have t: "long_runs isletter (map lower_char ''7 years'') = [''years'']" by code_simp
  have "findall WORD_PATTERN (lower zeros_7_years) = [''years'']"
    using long_runs_replicate [where P = isletter and c = "CHR ''0''" and n = 4300
        and s = "map lower_char ''7 years''", OF z(2)] t
    by (simp add: findall_word_runs lower_def zeros_7_years_def z(1)
        del: long_runs.simps)
  then show "repeated_words zeros_7_years = []"
    by (simp add: repeated_words_def Counter_def)
  show "experience_digits zeros_7_years = Some (replicate 4300 CHR ''0'' @ ''7'')"
    unfolding zeros_7_years_def
    by (rule experience_digits_run) (simp_all add: list_all_iff isdecimal_def)
  have "digit_value CHR ''7'' = 7" by (simp add: digit_value_def)
  then show "foldl (\<lambda>a c. 10 * a + digit_value c) 0 (replicate 4300 CHR ''0'' @ ''7'') = 7"
    by (simp add: digits_value_zeros)
qed

lemma fours_4301_years_facts:
  "50 \<le> length (strip fours_4301_years)"
  "experience_digits fours_4301_years = Some (replicate 4301 CHR ''4'')"
  "40 < foldl (\<lambda>a c. 10 * a + digit_value c) 0 (replicate 4301 CHR ''4'')"
proof -
  have "strip fours_4301_years = fours_4301_years"
    unfolding fours_4301_years_def by (rule strip_id) (simp_all add: isspace_def hd_append)
  then show "50 \<le> length (strip fours_4301_years)"
    by (simp add: fours_4301_years_def)
  show "experience_digits fours_4301_years = Some (replicate 4301 CHR ''4'')"
    unfolding fours_4301_years_def
    by (rule experience_digits_run) (simp_all add: list_all_iff isdecimal_def)
  from digits_value_fours [of 4299]
  show "40 < foldl (\<lambda>a c. 10 * a + digit_value c) 0 (replicate 4301 CHR ''4'')"
    by simp
qed

lemma no_links_report:
  assumes "50 \<le> length (strip text)"
    and "search GITHUB_PATTERN text = None" and "search LINKEDIN_PATTERN text = None"
    and "repeated_words text = []"
    and "extract_experience_years lim text = Inr e" and "\<forall>n. e = Some n \<longrightarrow> n \<le> 40"
  shows "check_fraud lim current_year text fname =
      Inr \<lparr>filename = fname, fraud_score = 50, fraud_status = ''Suspicious'',
           reasons = [''Missing GitHub profile URL'', ''Missing LinkedIn profile URL''],
           extracted_preview = take 300 text\<rparr>
    \<and> (\<forall>g l s rs. presence_rules g l (s, rs) =
          (s + (if g = None then 25 else 0) + (if l = None then 25 else 0),
           rs @ (if g = None then [''Missing GitHub profile URL''] else [])
              @ (if l = None then [''Missing LinkedIn profile URL''] else [])))"
proof -
  from extract_name_total obtain n where n: "extract_name text = Inr n" by blast
  from assms(2,3) have "profile_timeline_rules current_year text n None e =
      (50, [''Missing GitHub profile URL'', ''Missing LinkedIn profile URL''])"
    by (simp add: profile_timeline_rules_def presence_rules_eq mismatch_rule_def
        timeline_rules_def)
  with assms(4) have "additive_rules current_year text n None e =
      (50, [''Missing GitHub profile URL'', ''Missing LinkedIn profile URL''])"
    by (simp add: additive_rules_def repetition_rule_def)
  with assms(6) have "unrealistic_rule e (additive_rules current_year text n None e) =
      (50, [''Missing GitHub profile URL'', ''Missing LinkedIn profile URL''])"
    by (auto simp: unrealistic_rule_def split: option.splits)
  with check_fraud_long_eq [OF assms(1) n assms(5)] show ?thesis
    by (simp add: final_report_def presence_rules_eq)
qed

lemma unrealistic_floor_report:
  assumes "50 \<le> length (strip text)"
    and "extract_experience_years lim text = Inr (Some n)" and "40 < n"
  shows "\<exists>name g r. extract_name text = Inr name
     \<and> extract_graduation_year lim text = Inr g
     \<and> check_fraud lim current_year text fname = Inr r
     \<and> fraud_score r =
         min (max (fst (additive_rules current_year text name g (Some n))) 50) 100
     \<and> reasons r = snd (additive_rules current_year text name g (Some n))
         @ [''Unrealistic experience claimed: '' @ str_int n @ '' years (>40)'']
     \<and> 50 \<le> fraud_score r \<and> fraud_status r = ''Suspicious''
     \<and> (fst (additive_rules current_year text name g (Some n)) = 0 \<longrightarrow> fraud_score r = 50)"
proof -
  from extract_name_total obtain name where name: "extract_name text = Inr name" by blast
  let ?a = "additive_rules current_year text name None (Some n)"
  from assms(3) have u: "unrealistic_rule (Some n) ?a =
      (max (fst ?a) 50, snd ?a @ [''Unrealistic experience claimed: '' @ str_int n @ '' years (>40)''])"
    by (simp add: unrealistic_rule_def)
  have "check_fraud lim current_year text fname =
      Inr (final_report fname text (unrealistic_rule (Some n) ?a))"
    by (rule check_fraud_long_eq [OF assms(1) name assms(2)])
  with u name show ?thesis
    by (auto simp: extract_graduation_year_None score_final_report status_final_report
        reasons_final_report)
qed

section \<open>The short-circuit rule, the score range and the status threshold\<close>

text \<open>
  Claim C3. A text whose trimmed length is below 50 gets exactly the report with score
  100, status Suspicious, the single short-text reason and the first 300 characters of
  the text as preview, whatever else the text holds and whatever the filename.
\<close>

theorem short_text_report:
  "length (strip text) < 50 \<Longrightarrow>
   check_fraud lim current_year text fname =
     Inr \<lparr>filename = fname, fraud_score = 100, fraud_status = ''Suspicious'',
          reasons = [''Resume content is empty or too short (< 50 characters)''],
          extracted_preview = take 300 text\<rparr>"
  by (simp add: check_fraud_def short_reason_def)

theorem short_text_report_witness:
  "length (strip ''   Jane Doe, github.com/janedoe   '') < 50 \<and>
   check_fraud 4300 2024 ''   Jane Doe, github.com/janedoe   '' ''cv.pdf'' =
     Inr \<lparr>filename = ''cv.pdf'', fraud_score = 100, fraud_status = ''Suspicious'',
          reasons = [''Resume content is empty or too short (< 50 characters)''],
          extracted_preview = ''   Jane Doe, github.com/janedoe   ''\<rparr>"
proof -
  have h: "length (strip ''   Jane Doe, github.com/janedoe   '') < 50"
    by code_simp
  show ?thesis
    using h short_text_report [OF h, of 4300 2024 "''cv.pdf''"] by simp
qed

text \<open>
  Claim C4. Whatever the text, the filename and the current year, the score of a report
  that \<open>check_fraud\<close> returns lies between 0 and 100.
\<close>

theorem fraud_score_range:
  "check_fraud lim current_year text fname = Inr r \<Longrightarrow>
   0 \<le> fraud_score r \<and> fraud_score r \<le> 100"
proof (cases "length (strip text) < 50")
  case True
  assume "check_fraud lim current_year text fname = Inr r"
  with True show ?thesis by (auto simp: check_fraud_def)
next
  case False
  assume "check_fraud lim current_year text fname = Inr r"
  with False obtain n g e where
    r: "r = final_report fname text (unrealistic_rule e (additive_rules current_year text n g e))"
    using check_fraud_long by blast
  have "0 \<le> fst (unrealistic_rule e (additive_rules current_year text n g e))"
    by (rule unrealistic_rule_nonneg) (rule additive_rules_nonneg)
  then show ?thesis by (simp add: r score_final_report)
qed

theorem fraud_score_range_witness:
  "\<exists>r. check_fraud 4300 2024 resume_fox ''cv.pdf'' = Inr r \<and> fraud_score r = 50
       \<and> 0 \<le> fraud_score r \<and> fraud_score r \<le> 100"
proof -
  have e: "check_fraud 4300 2024 resume_fox ''cv.pdf'' =
     Inr \<lparr>filename = ''cv.pdf'', fraud_score = 50, fraud_status = ''Suspicious'',
          reasons = [''Missing GitHub profile URL'', ''Missing LinkedIn profile URL''],
          extracted_preview = resume_fox\<rparr>"
    by code_simp
  from fraud_score_range [OF e] e show ?thesis by simp
qed

text \<open>
  Claim C5. The status of a returned report is Suspicious exactly when its score is at
  least 50, and Genuine otherwise, on the short-circuit path and on the full analysis.
\<close>

theorem status_iff_threshold:
  "check_fraud lim current_year text fname = Inr r \<Longrightarrow>
   (fraud_status r = ''Suspicious'' \<longleftrightarrow> fraud_score r \<ge> 50) \<and>
   (fraud_status r = ''Genuine'' \<longleftrightarrow> fraud_score r < 50)"
proof (cases "length (strip text) < 50")
  case True
  assume "check_fraud lim current_year text fname = Inr r"
  with True show ?thesis by (auto simp: check_fraud_def)
next
  case False
  assume "check_fraud lim current_year text fname = Inr r"
  with False obtain n g e where
    r: "r = final_report fname text (unrealistic_rule e (additive_rules current_year text n g e))"
    using check_fraud_long by blast
  show ?thesis by (auto simp: r score_final_report status_final_report)
qed

theorem status_iff_threshold_witness:
  "\<exists>r. check_fraud 4300 2024 resume_jane ''cv.pdf'' = Inr r
       \<and> fraud_status r = ''Suspicious'' \<and> fraud_score r \<ge> 50 \<and> fraud_status r \<noteq> ''Genuine''"
proof -
  have e: "check_fraud 4300 2024 resume_jane ''cv.pdf'' =
     Inr \<lparr>filename = ''cv.pdf'', fraud_score = 50, fraud_status = ''Suspicious'',
          reasons = [''Unrealistic experience claimed: 42 years (>40)''],
          extracted_preview = resume_jane\<rparr>"
    by code_simp
  from status_iff_threshold [OF e] e show ?thesis by simp
qed

section \<open>The graduation year\<close>

text \<open>
  Claim C1. For a text of trimmed length at least 50, the graduation year the timeline
  rules use should be the least 4-digit token that begins with 19 or 20 and lies between
  1970 and 2099, absent exactly when the text has no such token. The code loses it:
  \<open>YEAR_PATTERN\<close> has a group around the century, so \<open>findall\<close> returns the centuries
  19 and 20 and not the years, none of them passes the range filter, and
  \<open>extract_graduation_year\<close> answers \<^verbatim>\<open>None\<close> for every text (lemma
  \<open>extract_graduation_year_None\<close>). On the sample resume, of trimmed length over 50, whose
  only year token is 2020:
\<close>

theorem graduation_year_lost:
  "50 \<le> length (strip resume_john)
   \<and> year_tokens resume_john = [''2020'']
   \<and> spec_graduation_year resume_john = Some 2020
   \<and> findall YEAR_PATTERN resume_john = [''20'']
   \<and> extract_graduation_year 4300 resume_john = Inr None"
  by code_simp

text \<open>
  Claim C2. The resume whose first capitalized line is John Smith, with
  github.com/johnsmith99, linkedin.com/in/johnsmith, the year 2020 and 5 years of
  experience, checked in 2024, should fire the timeline-mismatch rule alone: score 30,
  status Genuine. Both handles do match and the experience is read as 5, but the
  graduation year is lost as in C1, so the rule does not fire and the score is 0; with
  the year 2020 the same rule adds 30.
\<close>

theorem john_smith_scores_zero:
  "check_fraud 4300 2024 resume_john ''resume.pdf'' =
     Inr \<lparr>filename = ''resume.pdf'', fraud_score = 0, fraud_status = ''Genuine'',
          reasons = [], extracted_preview = resume_john\<rparr>
   \<and> extract_experience_years 4300 resume_john = Inr (Some 5)
   \<and> fst (timeline_rules 2024 (spec_graduation_year resume_john) (Some 5) (0, [])) = 30"
  by code_simp

section \<open>Missing profile links\<close>

text \<open>
  Claim C6. A text of trimmed length at least 50 with no GitHub link and no LinkedIn
  link, in which no other rule fires, should get score 50, status Suspicious and exactly
  the two reasons for the missing links, GitHub first. The code gives that report
  whenever it has converted the experience figure (lemma \<open>no_links_report\<close>), but it
  converts the figure with \<^verbatim>\<open>int(match.group(1))\<close> whatever its length and catches
  nothing. The text of 4300 zeros followed by 7 years has no link and no repeated word,
  and its figure is 7; its run of 4301 digits is over the interpreter's limit of 4300,
  so the call raises ValueError and returns no report. With the limit lifted the report
  is the one the claim describes.
\<close>

theorem zero_padded_experience_raises:
  "50 \<le> length (strip zeros_7_years)
   \<and> search GITHUB_PATTERN zeros_7_years = None
   \<and> search LINKEDIN_PATTERN zeros_7_years = None
   \<and> repeated_words zeros_7_years = []
   \<and> experience_digits zeros_7_years = Some (replicate 4300 CHR ''0'' @ ''7'')
   \<and> foldl (\<lambda>a c. 10 * a + digit_value c) 0 (replicate 4300 CHR ''0'' @ ''7'') = 7
   \<and> check_fraud 4300 2024 zeros_7_years ''zeros.pdf'' = Inl ValueError
   \<and> check_fraud 0 2024 zeros_7_years ''zeros.pdf'' =
       Inr \<lparr>filename = ''zeros.pdf'', fraud_score = 50, fraud_status = ''Suspicious'',
            reasons = [''Missing GitHub profile URL'', ''Missing LinkedIn profile URL''],
            extracted_preview = take 300 zeros_7_years\<rparr>"
proof -
  note f = zeros_7_years_facts
  have r: "check_fraud 4300 2024 zeros_7_years ''zeros.pdf'' = Inl ValueError"
    by (rule check_fraud_over_limit [OF f(1) f(5)]) simp_all
  have e: "extract_experience_years 0 zeros_7_years = Inr (Some 7)"
    by (simp add: extract_experience_years_eq f(5) f(6) del: foldl_append)
  from no_links_report [OF f(1-4) e, of 2024 "''zeros.pdf''"]
  have "check_fraud 0 2024 zeros_7_years ''zeros.pdf'' =
       Inr \<lparr>filename = ''zeros.pdf'', fraud_score = 50, fraud_status = ''Suspicious'',
            reasons = [''Missing GitHub profile URL'', ''Missing LinkedIn profile URL''],
            extracted_preview = take 300 zeros_7_years\<rparr>"
    by simp
  with f r show ?thesis by blast
qed

section \<open>Repeated words\<close>

text \<open>
  Claim C7 counts tokens that are maximal runs of 3 or more alphabetic characters of the
  lowercased text, and says that one occurring 26 times triggers the repetition rule.
  The pattern of the code, \<^verbatim>\<open>[a-zA-Z]{3,}\<close>, knows the letters a to z and A to Z only:
  any other alphabetic character ends a run. In the text that repeats the word naive,
  spelt with U+00EF, 26 times, that word is a run of 5 alphabetic characters occurring
  26 times; the code finds the runs na and ve, too short to count, no token at all, and
  the rule does not fire.
\<close>

theorem accented_token_not_counted:
  "50 \<le> length (strip resume_naive26)
   \<and> count_list (spec_tokens (lower resume_naive26))
         [CHR ''n'', CHR ''a'', CHR 0xEF, CHR ''v'', CHR ''e''] = 26
   \<and> findall WORD_PATTERN (lower resume_naive26) = []
   \<and> repeated_words resume_naive26 = []
   \<and> repetition_rule resume_naive26 (50, []) = (50, [])
   \<and> check_fraud 4300 2024 resume_naive26 ''naive.pdf'' =
       Inr \<lparr>filename = ''naive.pdf'', fraud_score = 50, fraud_status = ''Suspicious'',
            reasons = [''Missing GitHub profile URL'', ''Missing LinkedIn profile URL''],
            extracted_preview = resume_naive26\<rparr>"
  by code_simp

text \<open>
  Claim C7, amended to the letters the pattern knows. For a text of trimmed length at
  least 50: the tokens that \<^verbatim>\<open>re.findall(r"[a-zA-Z]{3,}", text.lower())\<close> returns are the
  maximal runs of 3 or more letters a to z or A to Z of the lowercased text; a token is
  repeated exactly when it occurs 26 times or more, so one occurring 25 times is not;
  the rule leaves score and reasons alone when no token is repeated, and otherwise adds
  15 once and one reason that lists the first five repeated tokens; and this is the rule
  \<open>check_fraud\<close> runs between the timeline rules and the unrealistic-experience override.
\<close>

theorem repetition_boundary:
  assumes "50 \<le> length (strip text)"
  shows "findall WORD_PATTERN (lower text) = ascii_tokens (lower text)
    \<and> (\<forall>w. w \<in> set (repeated_words text) \<longleftrightarrow>
              26 \<le> count_list (findall WORD_PATTERN (lower text)) w)
    \<and> distinct (repeated_words text)
    \<and> (\<forall>a. repetition_rule text a =
          (if \<exists>w. 26 \<le> count_list (findall WORD_PATTERN (lower text)) w
           then (fst a + 15,
                 snd a @ [''Words repeated excessively (>25 times): ''
                          @ join '', '' (take 5 (repeated_words text))])
           else a))
    \<and> (\<forall>r. check_fraud lim current_year text fname = Inr r \<longrightarrow>
          (\<exists>name g e. extract_name text = Inr name
             \<and> extract_graduation_year lim text = Inr g
             \<and> extract_experience_years lim text = Inr e
             \<and> r = final_report fname text
                   (unrealistic_rule e
                      (repetition_rule text
                         (profile_timeline_rules current_year text name g e)))))"
proof (intro conjI allI impI)
  show "findall WORD_PATTERN (lower text) = ascii_tokens (lower text)"
    by (rule findall_ascii_tokens)
next
  fix w
  show "w \<in> set (repeated_words text) \<longleftrightarrow>
        26 \<le> count_list (findall WORD_PATTERN (lower text)) w"
    by (simp add: set_repeated_words Suc_le_eq [symmetric])
next
  show "distinct (repeated_words text)" by (rule distinct_repeated_words)
next
  fix a
  show "repetition_rule text a =
          (if \<exists>w. 26 \<le> count_list (findall WORD_PATTERN (lower text)) w
           then (fst a + 15,
                 snd a @ [''Words repeated excessively (>25 times): ''
                          @ join '', '' (take 5 (repeated_words text))])
           else a)"
    by (rule repetition_rule_eq)
next
  fix r
  assume r: "check_fraud lim current_year text fname = Inr r"
  from assms have "\<not> length (strip text) < 50" by simp
  from check_fraud_long [OF this r] show
    "\<exists>name g e. extract_name text = Inr name
       \<and> extract_graduation_year lim text = Inr g
       \<and> extract_experience_years lim text = Inr e
       \<and> r = final_report fname text
             (unrealistic_rule e
                (repetition_rule text
                   (profile_timeline_rules current_year text name g e)))"
    by (simp add: additive_rules_def)
qed

theorem repetition_boundary_witness:
  "50 \<le> length (strip resume_spam26)
   \<and> count_list (findall WORD_PATTERN (lower resume_spam26)) ''spam'' = 26
   \<and> ''spam'' \<in> set (repeated_words resume_spam26)
   \<and> repetition_rule resume_spam26 (50, []) =
       (65, [''Words repeated excessively (>25 times): spam''])
   \<and> 50 \<le> length (strip resume_spam25)
   \<and> count_list (findall WORD_PATTERN (lower resume_spam25)) ''spam'' = 25
   \<and> ''spam'' \<notin> set (repeated_words resume_spam25)"
proof -
  have h26: "50 \<le> length (strip resume_spam26)"
    and c26: "count_list (findall WORD_PATTERN (lower resume_spam26)) ''spam'' = 26"
    and r26: "repeated_words resume_spam26 = [''spam'']"
    by code_simp+
  have h25: "50 \<le> length (strip resume_spam25)"
    and c25: "count_list (findall WORD_PATTERN (lower resume_spam25)) ''spam'' = 25"
    by code_simp+
  note b26 = repetition_boundary [OF h26, of 4300 2024 "''cv.pdf''"]
  note b25 = repetition_boundary [OF h25, of 4300 2024 "''cv.pdf''"]
  from b26 have "''spam'' \<in> set (repeated_words resume_spam26) \<longleftrightarrow>
      26 \<le> count_list (findall WORD_PATTERN (lower resume_spam26)) ''spam''"
    by blast
  with c26 have a: "''spam'' \<in> set (repeated_words resume_spam26)" by simp
  from c26 have ex: "\<exists>w. 26 \<le> count_list (findall WORD_PATTERN (lower resume_spam26)) w"
    by (intro exI [of _ "''spam''"]) simp
  from b26 have "repetition_rule resume_spam26 (50, []) =
      (if \<exists>w. 26 \<le> count_list (findall WORD_PATTERN (lower resume_spam26)) w
       then (fst (50::int, []::string list) + 15,
             snd (50::int, []::string list) @ [''Words repeated excessively (>25 times): ''
                      @ join '', '' (take 5 (repeated_words resume_spam26))])
       else (50, []))"
    by blast
  with ex r26 have b: "repetition_rule resume_spam26 (50, []) =
       (65, [''Words repeated excessively (>25 times): spam''])"
    by simp
  from b25 have "''spam'' \<in> set (repeated_words resume_spam25) \<longleftrightarrow>
      26 \<le> count_list (findall WORD_PATTERN (lower resume_spam25)) ''spam''"
    by blast
  with c25 have c: "''spam'' \<notin> set (repeated_words resume_spam25)" by simp
  from h26 c26 a b h25 c25 c show ?thesis by blast
qed

text \<open>
  Claim C10. The repeated tokens are listed in the order of their first occurrence in
  the lowercased text, each once: the list is sorted by first index, it is the only list
  of these tokens that is, and when the rule fires its reason prints the first five of it.
\<close>

theorem repeated_words_first_occurrence:
  "distinct (repeated_words text)
   \<and> set (repeated_words text) =
       {w \<in> set (findall WORD_PATTERN (lower text)).
          25 < count_list (findall WORD_PATTERN (lower text)) w}
   \<and> sorted_wrt (\<lambda>u v. first_index (findall WORD_PATTERN (lower text)) u
                       < first_index (findall WORD_PATTERN (lower text)) v)
        (repeated_words text)
   \<and> (\<forall>xs. set xs = set (repeated_words text)
          \<and> sorted_wrt (\<lambda>u v. first_index (findall WORD_PATTERN (lower text)) u
                             < first_index (findall WORD_PATTERN (lower text)) v) xs
          \<longrightarrow> xs = repeated_words text)
   \<and> (repeated_words text \<noteq> [] \<longrightarrow>
        (\<forall>a. snd (repetition_rule text a) =
              snd a @ [''Words repeated excessively (>25 times): ''
                       @ join '', '' (take 5 (repeated_words text))]))"
proof (intro conjI allI impI)
  show "distinct (repeated_words text)" by (rule distinct_repeated_words)
next
  show "set (repeated_words text) =
       {w \<in> set (findall WORD_PATTERN (lower text)).
          25 < count_list (findall WORD_PATTERN (lower text)) w}"
    by (auto simp: repeated_words_eq set_firsts)
next
  show "sorted_wrt (\<lambda>u v. first_index (findall WORD_PATTERN (lower text)) u
                       < first_index (findall WORD_PATTERN (lower text)) v)
        (repeated_words text)"
    by (rule sorted_repeated_words)
next
  fix xs
  assume "set xs = set (repeated_words text)
          \<and> sorted_wrt (\<lambda>u v. first_index (findall WORD_PATTERN (lower text)) u
                             < first_index (findall WORD_PATTERN (lower text)) v) xs"
  then show "xs = repeated_words text"
    using sorted_first_index_unique [OF _ sorted_repeated_words _ repeated_words_subset]
    by blast
next
  fix a
  assume "repeated_words text \<noteq> []"
  then show "snd (repetition_rule text a) =
              snd a @ [''Words repeated excessively (>25 times): ''
                       @ join '', '' (take 5 (repeated_words text))]"
    by (simp add: repetition_rule_def repetition_reason_def flag_def)
qed

theorem repeated_words_first_occurrence_witness:
  "findall WORD_PATTERN (lower (take 22 resume_zeta_alpha)) = [''zeta'', ''alpha'', ''zeta'', ''alpha'']
   \<and> repeated_words resume_zeta_alpha = [''zeta'', ''alpha'']
   \<and> snd (repetition_rule resume_zeta_alpha (0, [])) =
       [''Words repeated excessively (>25 times): zeta, alpha'']"
proof -
  have r: "repeated_words resume_zeta_alpha = [''zeta'', ''alpha'']"
    and f: "findall WORD_PATTERN (lower (take 22 resume_zeta_alpha)) =
            [''zeta'', ''alpha'', ''zeta'', ''alpha'']"
    by code_simp+
  from repeated_words_first_occurrence [of resume_zeta_alpha] r f show ?thesis
    by simp
qed

section \<open>Unrealistic experience\<close>

text \<open>
  Claim C8. For a text of trimmed length at least 50 whose experience figure exceeds 40,
  the score should be at least 50 and the status Suspicious, the override being the
  floor \<^verbatim>\<open>max(score, 50)\<close> applied after the additive rules and before the cap. The code
  does this whenever it has converted the figure (lemma \<open>unrealistic_floor_report\<close>:
  the score is the additive score raised to 50 and capped at 100, exactly 50 when the
  additive rules total 0). But a figure written with 4301 digits, far above 40, is
  over the interpreter's limit of 4300 digits: \<^verbatim>\<open>int(match.group(1))\<close> raises ValueError
  and \<open>check_fraud\<close> returns no report, where the header of the module promises
  Suspicious for an experience over 40 years.
\<close>

theorem long_experience_figure_raises:
  "50 \<le> length (strip fours_4301_years)
   \<and> experience_digits fours_4301_years = Some (replicate 4301 CHR ''4'')
   \<and> 40 < foldl (\<lambda>a c. 10 * a + digit_value c) 0 (replicate 4301 CHR ''4'')
   \<and> check_fraud 4300 2024 fours_4301_years ''fours.pdf'' = Inl ValueError"
proof -
  note f = fours_4301_years_facts
  have "check_fraud 4300 2024 fours_4301_years ''fours.pdf'' = Inl ValueError"
    by (rule check_fraud_over_limit [OF f(1) f(2)]) simp_all
  with f show ?thesis by blast
qed

section \<open>Totality\<close>

text \<open>
  Claim C9. \<open>check_fraud\<close> should return a report for every text and filename and never
  raise; its docstring promises a fraud report and that of \<^verbatim>\<open>_extract_experience_years\<close>
  an int or \<^verbatim>\<open>None\<close>. The code converts the digits of the first experience phrase with
  \<^verbatim>\<open>int(match.group(1))\<close> and handles no exception. CPython refuses to convert a run of
  more than \<^verbatim>\<open>sys.get_int_max_str_digits()\<close> digits, 4300 by default, with a ValueError,
  so a text of 4301 digits followed by the word years makes the call raise. It is the
  only way the call can raise (lemmas \<open>check_fraud_over_limit\<close> and
  \<open>check_fraud_within_limit\<close>).
\<close>

theorem long_digit_run_raises:
  "50 \<le> length (strip (replicate 4301 CHR ''1'' @ '' years''))
   \<and> check_fraud 4300 2024 (replicate 4301 CHR ''1'' @ '' years'') ''digits.pdf''
       = Inl ValueError"
proof -
  note f = digits_4301_years_facts [unfolded digits_4301_years_def]
  have "check_fraud 4300 2024 (replicate 4301 CHR ''1'' @ '' years'') ''digits.pdf''
       = Inl ValueError"
    by (rule check_fraud_over_limit [OF f(1) f(2)]) simp_all
  with f(1) show ?thesis by blast
qed

end
